theory Spec2Isabelle
  imports
    Main
    "HOL-Library.Word"
    "HOL-Library.AList"
    "HOL-Library.Char_ord"
    "HOL-Library.List_Lexorder"
begin

section \<open>prepare\_structure.py: compositing, distribution and background suppression\<close>

text \<open>
  The script works on a directory tree of PNG files.  The development below embeds its
  five functions (\<open>combine_rgb_mask\<close>, the three copy functions,
  \<open>postprocess_segmented_images\<close> and \<open>process_object_directory\<close>) over an
  explicit file system that is passed in and returned.  Library calls (\<open>os\<close>,
  \<open>shutil\<close>, \<open>cv2\<close>, \<open>PIL\<close>, \<open>numpy\<close>) are modelled by small functions
  of their own, one per call the script makes; an exception that the script does not
  catch is a value \<open>Inl e\<close>, an exception caught by a \<open>try\<close> in one of the two
  image loops makes the loop body return \<open>None\<close> (the image is skipped).
\<close>

subsection \<open>Strings: extension test, stem, index formatting\<close>

text \<open>\<open>f.lower()\<close>, on the ASCII letters.\<close>

definition lower_char :: "char \<Rightarrow> char" where
  "lower_char c =
     (if CHR ''A'' \<le> c \<and> c \<le> CHR ''Z'' then char_of (of_char c + (32::nat)) else c)"

definition lower :: "string \<Rightarrow> string" where
  "lower s = map lower_char s"

text \<open>\<open>s.endswith(suf)\<close>.\<close>

definition endswith :: "string \<Rightarrow> string \<Rightarrow> bool" where
  "endswith s suf = (length suf \<le> length s \<and> drop (length s - length suf) s = suf)"

text \<open>The filter of both listings: \<open>f.lower().endswith('.png')\<close>.\<close>

definition is_png :: "string \<Rightarrow> bool" where
  "is_png f = endswith (lower f) ''.png''"

text \<open>
  \<open>os.path.splitext(f)[0]\<close> for a file name (no separator in it): the name is cut at
  its last dot, unless only dots stand before that dot.
\<close>

fun rfind_dot :: "string \<Rightarrow> nat option" where
  "rfind_dot [] = None"
| "rfind_dot (c # cs) =
     (case rfind_dot cs of
        Some i \<Rightarrow> Some (Suc i)
      | None \<Rightarrow> if c = CHR ''.'' then Some 0 else None)"

definition splitext_root :: "string \<Rightarrow> string" where
  "splitext_root f =
     (case rfind_dot f of
        None \<Rightarrow> f
      | Some d \<Rightarrow> if list_ex (\<lambda>c. c \<noteq> CHR ''.'') (take d f) then take d f else f)"

text \<open>
  \<open>f"{i:06d}"\<close>: the decimal digits of \<open>i\<close>, padded with zeros to six characters, the
  sign (when there is one) counting as one of the six.
\<close>

definition digit_char :: "nat \<Rightarrow> char" where
  "digit_char d = char_of (48 + d)"

fun digits10 :: "nat \<Rightarrow> string" where
  "digits10 n = (if n < 10 then [digit_char n] else digits10 (n div 10) @ [digit_char (n mod 10)])"

declare digits10.simps [simp del]

definition zfill :: "nat \<Rightarrow> string \<Rightarrow> string" where
  "zfill w s = replicate (w - length s) CHR ''0'' @ s"

definition format_06d :: "int \<Rightarrow> string" where
  "format_06d i =
     (if i < 0 then CHR ''-'' # zfill 5 (digits10 (nat (- i))) else zfill 6 (digits10 (nat i)))"

text \<open>The three file names the script builds from an index or a stem.\<close>

definition png_name :: "int \<Rightarrow> string" where
  "png_name i = format_06d i @ ''.png''"

definition mask_name :: "int \<Rightarrow> string" where
  "mask_name i = format_06d i @ ''_000000.png''"

subsection \<open>Pixel arrays and stored images\<close>

type_synonym u8 = "8 word"

text \<open>A numpy array of shape (H, W), and one of shape (H, W, C): rows of pixels.\<close>

type_synonym array2 = "u8 list list"
type_synonym array3 = "u8 list list list"

text \<open>What \<open>cv2.imread(path, cv2.IMREAD_UNCHANGED)\<close> can return: two or three axes.\<close>

datatype ndarray = Arr2 array2 | Arr3 array3

text \<open>
  The content of a regular file: an 8-bit PNG with one, three or four channels (pixels in
  the file's own order: grey, RGB, RGBA), or bytes no decoder reads.
\<close>

datatype content =
    GrayPng "u8 list list"
  | RgbPng "(u8 \<times> u8 \<times> u8) list list"
  | RgbaPng "(u8 \<times> u8 \<times> u8 \<times> u8) list list"
  | Undecodable

text \<open>
  Two parts of OpenCV are parameters of the model: the weights that turn a colour pixel
  into a grey one when a colour file is read with \<open>IMREAD_GRAYSCALE\<close>, and the
  interpolation of \<open>cv2.resize\<close>, given as the value of the resized image at row
  \<open>y\<close> and column \<open>x\<close> (arguments: source, target height, target width, \<open>y\<close>,
  \<open>x\<close>).
\<close>

record cv2 =
  rgb_to_gray :: "u8 \<Rightarrow> u8 \<Rightarrow> u8 \<Rightarrow> u8"
  interpolate :: "array2 \<Rightarrow> nat \<Rightarrow> nat \<Rightarrow> nat \<Rightarrow> nat \<Rightarrow> u8"

text \<open>\<open>cv2.imread(path)\<close> decodes to three channels in the order B, G, R; an alpha
  channel is dropped.\<close>

fun decode_color :: "content \<Rightarrow> array3 option" where
  "decode_color (GrayPng g) = Some (map (map (\<lambda>v. [v, v, v])) g)"
| "decode_color (RgbPng p) = Some (map (map (\<lambda>(r, g, b). [b, g, r])) p)"
| "decode_color (RgbaPng p) = Some (map (map (\<lambda>(r, g, b, a). [b, g, r])) p)"
| "decode_color Undecodable = None"

text \<open>\<open>cv2.imread(path, cv2.IMREAD_GRAYSCALE)\<close> decodes to one channel.\<close>

fun decode_gray :: "cv2 \<Rightarrow> content \<Rightarrow> array2 option" where
  "decode_gray cv (GrayPng g) = Some g"
| "decode_gray cv (RgbPng p) = Some (map (map (\<lambda>(r, g, b). rgb_to_gray cv r g b)) p)"
| "decode_gray cv (RgbaPng p) = Some (map (map (\<lambda>(r, g, b, a). rgb_to_gray cv r g b)) p)"
| "decode_gray cv Undecodable = None"

text \<open>\<open>cv2.imread(path, cv2.IMREAD_UNCHANGED)\<close> keeps the file's channels (B, G, R
  first).\<close>

fun decode_unchanged :: "content \<Rightarrow> ndarray option" where
  "decode_unchanged (GrayPng g) = Some (Arr2 g)"
| "decode_unchanged (RgbPng p) = Some (Arr3 (map (map (\<lambda>(r, g, b). [b, g, r])) p))"
| "decode_unchanged (RgbaPng p) = Some (Arr3 (map (map (\<lambda>(r, g, b, a). [b, g, r, a])) p))"
| "decode_unchanged Undecodable = None"

text \<open>\<open>cv2.cvtColor(img, cv2.COLOR_BGR2RGB)\<close> on a three-channel array.\<close>

fun bgr2rgb :: "u8 list \<Rightarrow> u8 list" where
  "bgr2rgb [b, g, r] = [r, g, b]"
| "bgr2rgb p = p"

definition cvtColor_BGR2RGB :: "array3 \<Rightarrow> array3" where
  "cvtColor_BGR2RGB img = map (map bgr2rgb) img"

text \<open>\<open>a.shape\<close> of an array; the width of an array is the length of its first
  row.\<close>

definition width :: "'a list list \<Rightarrow> nat" where
  "width a = (case a of [] \<Rightarrow> 0 | r # _ \<Rightarrow> length r)"

definition shape2 :: "'a list list \<Rightarrow> nat \<times> nat" where
  "shape2 a = (length a, width a)"

definition shape :: "ndarray \<Rightarrow> nat list" where
  "shape a =
     (case a of
        Arr2 m \<Rightarrow> [length m, width m]
      | Arr3 m \<Rightarrow> [length m, width m, width (concat m)])"

text \<open>A rectangular array with at least one row and one column, as every decoded image
  is.\<close>

definition rect :: "'a list list \<Rightarrow> bool" where
  "rect a = (a \<noteq> [] \<and> 0 < width a \<and> list_all (\<lambda>r. length r = width a) a)"

text \<open>\<open>cv2.resize(src, (w, h))\<close> raises on an empty source or an empty target
  size.\<close>

definition resize :: "cv2 \<Rightarrow> array2 \<Rightarrow> nat \<Rightarrow> nat \<Rightarrow> array2 option" where
  "resize cv src w h =
     (if src = [] \<or> width src = 0 \<or> w = 0 \<or> h = 0 then None
      else Some (map (\<lambda>y. map (\<lambda>x. interpolate cv src h w y x) [0..<w]) [0..<h]))"

text \<open>\<open>np.zeros((h, w, 4), dtype=np.uint8)\<close>.\<close>

definition zeros4 :: "nat \<Rightarrow> nat \<Rightarrow> array3" where
  "zeros4 h w = replicate h (replicate w [0, 0, 0, 0])"

text \<open>\<open>rgba[:, :, :3] = rgb\<close> and \<open>rgba[:, :, 3] = mask\<close>, element by element.\<close>

definition set_rgb :: "array3 \<Rightarrow> array3 \<Rightarrow> array3" where
  "set_rgb rgba rgb = map2 (map2 (\<lambda>p q. take 3 q @ drop 3 p)) rgba rgb"

definition set_alpha :: "array3 \<Rightarrow> array2 \<Rightarrow> array3" where
  "set_alpha rgba alpha = map2 (map2 (\<lambda>p a. p[3 := a])) rgba alpha"

text \<open>\<open>Image.fromarray(rgba, 'RGBA')\<close> followed by \<open>save\<close> stores the four channels
  in the array's order; \<open>cv2.imwrite\<close> of a four-channel array takes it as B, G, R, A.\<close>

fun rgba_pixel :: "u8 list \<Rightarrow> u8 \<times> u8 \<times> u8 \<times> u8" where
  "rgba_pixel [r, g, b, a] = (r, g, b, a)"
| "rgba_pixel p = (0, 0, 0, 0)"

fun bgra_pixel :: "u8 list \<Rightarrow> u8 \<times> u8 \<times> u8 \<times> u8" where
  "bgra_pixel [b, g, r, a] = (r, g, b, a)"
| "bgra_pixel p = (0, 0, 0, 0)"

definition fromarray_RGBA :: "array3 \<Rightarrow> content" where
  "fromarray_RGBA a = RgbaPng (map (map rgba_pixel) a)"

definition encode_bgra :: "array3 \<Rightarrow> content" where
  "encode_bgra a = RgbaPng (map (map bgra_pixel) a)"

text \<open>
  Lines 212 to 218 of \<open>postprocess_segmented_images\<close>: the alpha channel is read,
  compared with the threshold into a Boolean array, and each of the channels 0, 1 and 2 is
  set to zero where that array holds \<open>True\<close>.
\<close>

definition alpha_channel :: "array3 \<Rightarrow> array2" where
  "alpha_channel rgba = map (map (\<lambda>p. p ! 3)) rgba"

definition background_mask :: "array3 \<Rightarrow> bool list list" where
  "background_mask rgba = map (map (\<lambda>a. a < 10)) (alpha_channel rgba)"

definition zero_channel :: "array3 \<Rightarrow> bool list list \<Rightarrow> nat \<Rightarrow> array3" where
  "zero_channel rgba bg c = map2 (map2 (\<lambda>p b. if b then p[c := 0] else p)) rgba bg"

definition suppress_background :: "array3 \<Rightarrow> array3" where
  "suppress_background rgba =
     (let bg = background_mask rgba;
          rgba = zero_channel rgba bg 0;
          rgba = zero_channel rgba bg 1;
          rgba = zero_channel rgba bg 2
      in rgba)"

subsection \<open>The file system and the library calls on it\<close>

text \<open>
  A path is the list of its components, so \<open>os.path.join(d, name)\<close> with a name that
  holds no separator adds one component.  The file system is an association list from
  paths to entries; an entry is a directory or a regular file with its content.
\<close>

type_synonym path = "string list"

datatype entry = Dir | File content

type_synonym fs = "(path \<times> entry) list"

datatype exn =
    FileExistsError | FileNotFoundError | NotADirectoryError | IsADirectoryError | SameFileError

definition path_join :: "path \<Rightarrow> string \<Rightarrow> path" where
  "path_join d name = d @ [name]"

text \<open>\<open>os.path.exists\<close>: true of files and of directories alike.\<close>

definition path_exists :: "fs \<Rightarrow> path \<Rightarrow> bool" where
  "path_exists fs p = (map_of fs p \<noteq> None)"

text \<open>
  \<open>os.makedirs(p, exist_ok=True)\<close> walks down the components of \<open>p\<close> and creates
  every directory that is missing; it raises when a component on the way is a regular
  file.
\<close>

fun makedirs_from :: "fs \<Rightarrow> path \<Rightarrow> string list \<Rightarrow> exn + fs" where
  "makedirs_from fs d [] = Inr fs"
| "makedirs_from fs d (c # cs) =
     (case map_of fs (d @ [c]) of
        Some Dir \<Rightarrow> makedirs_from fs (d @ [c]) cs
      | Some (File x) \<Rightarrow> Inl (if cs = [] then FileExistsError else NotADirectoryError)
      | None \<Rightarrow> makedirs_from (AList.update (d @ [c]) Dir fs) (d @ [c]) cs)"

definition makedirs :: "fs \<Rightarrow> path \<Rightarrow> exn + fs" where
  "makedirs fs p = makedirs_from fs [] p"

text \<open>\<open>os.listdir(d)\<close>: the names of the entries directly under \<open>d\<close>.\<close>

definition children :: "fs \<Rightarrow> path \<Rightarrow> string list" where
  "children fs d = remdups (map (last \<circ> fst) (filter (\<lambda>(p, e). p \<noteq> [] \<and> butlast p = d) fs))"

definition listdir :: "fs \<Rightarrow> path \<Rightarrow> exn + string list" where
  "listdir fs d =
     (case map_of fs d of
        Some Dir \<Rightarrow> Inr (children fs d)
      | Some (File x) \<Rightarrow> Inl NotADirectoryError
      | None \<Rightarrow> Inl FileNotFoundError)"

text \<open>
  Writing a regular file at \<open>p\<close> (the end of \<open>shutil.copy2\<close>, \<open>Image.save\<close> and
  \<open>cv2.imwrite\<close>): it fails when \<open>p\<close> is a directory or when the folder \<open>p\<close>
  lies in is not a directory.
\<close>

definition write_file :: "fs \<Rightarrow> path \<Rightarrow> content \<Rightarrow> exn + fs" where
  "write_file fs p c =
     (if map_of fs p = Some Dir then Inl IsADirectoryError
      else if p = [] \<or> map_of fs (butlast p) \<noteq> Some Dir then Inl FileNotFoundError
      else Inr (AList.update p (File c) fs))"

text \<open>
  \<open>shutil.copy2(src, dst)\<close>: when \<open>dst\<close> is a directory the copy goes into it under
  the source's name; copying a file onto itself and copying a directory raise.
\<close>

definition copy2 :: "fs \<Rightarrow> path \<Rightarrow> path \<Rightarrow> exn + fs" where
  "copy2 fs src dst =
     (let target = (if map_of fs dst = Some Dir \<and> src \<noteq> [] then dst @ [last src] else dst) in
      case map_of fs src of
        None \<Rightarrow> Inl FileNotFoundError
      | Some Dir \<Rightarrow> Inl IsADirectoryError
      | Some (File c) \<Rightarrow> if target = src then Inl SameFileError else write_file fs target c)"

text \<open>The three ways the script reads an image: \<open>None\<close> where \<open>cv2.imread\<close> returns
  \<open>None\<close> (no file, a directory, or content it cannot decode).\<close>

definition imread :: "fs \<Rightarrow> path \<Rightarrow> array3 option" where
  "imread fs p = (case map_of fs p of Some (File c) \<Rightarrow> decode_color c | _ \<Rightarrow> None)"

definition imread_GRAYSCALE :: "cv2 \<Rightarrow> fs \<Rightarrow> path \<Rightarrow> array2 option" where
  "imread_GRAYSCALE cv fs p = (case map_of fs p of Some (File c) \<Rightarrow> decode_gray cv c | _ \<Rightarrow> None)"

definition imread_UNCHANGED :: "fs \<Rightarrow> path \<Rightarrow> ndarray option" where
  "imread_UNCHANGED fs p = (case map_of fs p of Some (File c) \<Rightarrow> decode_unchanged c | _ \<Rightarrow> None)"

text \<open>\<open>cv2.imwrite(p, a)\<close> reports a failed write by its result, which the script does
  not read: the file system is then left as it was.\<close>

definition imwrite :: "fs \<Rightarrow> path \<Rightarrow> array3 \<Rightarrow> fs" where
  "imwrite fs p a = (case write_file fs p (encode_bgra a) of Inl e \<Rightarrow> fs | Inr fs' \<Rightarrow> fs')"

subsection \<open>\<open>combine_rgb_mask\<close>\<close>

text \<open>
  The body of the loop over the colour files (lines 47 to 88).  \<open>None\<close> is either of
  the two \<open>continue\<close>s: the mask file is missing, or the \<open>try\<close> block raised.
\<close>

definition combine_one :: "cv2 \<Rightarrow> fs \<Rightarrow> path \<Rightarrow> path \<Rightarrow> path \<Rightarrow> string \<Rightarrow> fs option" where
  "combine_one cv fs rgb_folder mask_folder output_folder rgb_file =
     (let base_name = splitext_root rgb_file;
          mask_file = base_name @ ''_000000.png'';
          mask_path = path_join mask_folder mask_file
      in if \<not> path_exists fs mask_path then None
         else
          (let rgb_path = path_join rgb_folder rgb_file in
           (case imread fs rgb_path of
              None \<Rightarrow> None
            | Some bgr_image \<Rightarrow>
               (let rgb_image = cvtColor_BGR2RGB bgr_image in
                (case imread_GRAYSCALE cv fs mask_path of
                   None \<Rightarrow> None
                 | Some mask_image \<Rightarrow>
                    (case (if shape2 rgb_image \<noteq> shape2 mask_image
                           then resize cv mask_image (width rgb_image) (length rgb_image)
                           else Some mask_image) of
                       None \<Rightarrow> None
                     | Some mask_image \<Rightarrow>
                        (let rgba_image = zeros4 (length rgb_image) (width rgb_image);
                             rgba_image = set_rgb rgba_image rgb_image;
                             rgba_image = set_alpha rgba_image mask_image;
                             output_path = path_join output_folder (base_name @ ''.png'')
                         in (case write_file fs output_path (fromarray_RGBA rgba_image) of
                               Inl e \<Rightarrow> None
                             | Inr fs' \<Rightarrow> Some fs'))))))))"

fun combine_loop ::
  "cv2 \<Rightarrow> path \<Rightarrow> path \<Rightarrow> path \<Rightarrow> string list \<Rightarrow> fs \<Rightarrow> nat \<Rightarrow> fs \<times> nat" where
  "combine_loop cv rgb_folder mask_folder output_folder [] fs processed_count =
     (fs, processed_count)"
| "combine_loop cv rgb_folder mask_folder output_folder (rgb_file # rgb_files) fs processed_count =
     (case combine_one cv fs rgb_folder mask_folder output_folder rgb_file of
        None \<Rightarrow> combine_loop cv rgb_folder mask_folder output_folder rgb_files fs processed_count
      | Some fs' \<Rightarrow>
          combine_loop cv rgb_folder mask_folder output_folder rgb_files fs' (processed_count + 1))"

text \<open>
  The result is the returned Boolean, the count the function prints when the loop is
  over (0 on the early returns, which print no count), and the file system it leaves.
\<close>

definition combine_rgb_mask ::
  "cv2 \<Rightarrow> fs \<Rightarrow> path \<Rightarrow> path \<Rightarrow> path \<Rightarrow> exn + (bool \<times> nat \<times> fs)" where
  "combine_rgb_mask cv fs rgb_folder mask_folder output_folder =
     (if \<not> path_exists fs rgb_folder then Inr (False, 0, fs)
      else if \<not> path_exists fs mask_folder then Inr (False, 0, fs)
      else
        case makedirs fs output_folder of
          Inl e \<Rightarrow> Inl e
        | Inr fs \<Rightarrow>
            (case listdir fs rgb_folder of
               Inl e \<Rightarrow> Inl e
             | Inr names \<Rightarrow>
                 let rgb_files = sort (filter is_png names) in
                 if rgb_files = [] then Inr (False, 0, fs)
                 else
                   let (fs, processed_count) =
                         combine_loop cv rgb_folder mask_folder output_folder rgb_files fs 0
                   in Inr (processed_count > 0, processed_count, fs)))"

subsection \<open>The three copy functions\<close>

text \<open>
  The three functions run the same loop and differ in the two file names they build from
  the index; the loop is written once, with the two names as arguments.  It runs over the
  indices of \<open>range(start_idx, end_idx)\<close> and returns the file system and
  \<open>copied_count\<close>.
\<close>

fun copy_loop ::
  "(int \<Rightarrow> string) \<Rightarrow> (int \<Rightarrow> string) \<Rightarrow> path \<Rightarrow> path \<Rightarrow> int list \<Rightarrow> fs \<Rightarrow> nat
     \<Rightarrow> exn + (fs \<times> nat)" where
  "copy_loop source_name dest_name source_folder dest_folder [] fs copied_count =
     Inr (fs, copied_count)"
| "copy_loop source_name dest_name source_folder dest_folder (i # is) fs copied_count =
     (let source_file = path_join source_folder (source_name i);
          dest_file = path_join dest_folder (dest_name i)
      in if path_exists fs source_file
         then (case copy2 fs source_file dest_file of
                 Inl e \<Rightarrow> Inl e
               | Inr fs' \<Rightarrow>
                   copy_loop source_name dest_name source_folder dest_folder is fs'
                     (copied_count + 1))
         else copy_loop source_name dest_name source_folder dest_folder is fs copied_count)"

definition copy_range ::
  "(int \<Rightarrow> string) \<Rightarrow> (int \<Rightarrow> string) \<Rightarrow> fs \<Rightarrow> path \<Rightarrow> path \<Rightarrow> int \<times> int
     \<Rightarrow> exn + (fs \<times> nat)" where
  "copy_range source_name dest_name fs source_folder dest_folder image_range =
     (case makedirs fs dest_folder of
        Inl e \<Rightarrow> Inl e
      | Inr fs \<Rightarrow>
          let (start_idx, end_idx) = image_range
          in copy_loop source_name dest_name source_folder dest_folder
               [start_idx..end_idx - 1] fs 0)"

definition copy_images_to_directory :: "fs \<Rightarrow> path \<Rightarrow> path \<Rightarrow> int \<times> int \<Rightarrow> exn + (fs \<times> nat)" where
  "copy_images_to_directory = copy_range png_name png_name"

definition copy_and_rename_mask_images :: "fs \<Rightarrow> path \<Rightarrow> path \<Rightarrow> int \<times> int \<Rightarrow> exn + (fs \<times> nat)" where
  "copy_and_rename_mask_images = copy_range mask_name png_name"

definition copy_mask_images_to_directory :: "fs \<Rightarrow> path \<Rightarrow> path \<Rightarrow> int \<times> int \<Rightarrow> exn + (fs \<times> nat)" where
  "copy_mask_images_to_directory = copy_range mask_name mask_name"

subsection \<open>\<open>postprocess_segmented_images\<close>\<close>

text \<open>
  The body of the loop (lines 201 to 229).  \<open>None\<close>: the image has three axes and not
  four channels (the warning), or the \<open>try\<close> block raised (\<open>imread\<close> returned
  \<open>None\<close>, or the array has two axes and \<open>shape[2]\<close> is out of range).
\<close>

definition postprocess_one :: "fs \<Rightarrow> path \<Rightarrow> string \<Rightarrow> fs option" where
  "postprocess_one fs segmented_images_folder rgba_file =
     (let rgba_path = path_join segmented_images_folder rgba_file in
      case imread_UNCHANGED fs rgba_path of
        None \<Rightarrow> None
      | Some (Arr2 a) \<Rightarrow> None
      | Some (Arr3 rgba_image) \<Rightarrow>
          if shape (Arr3 rgba_image) ! 2 \<noteq> 4 then None
          else Some (imwrite fs rgba_path (suppress_background rgba_image)))"

fun postprocess_loop :: "path \<Rightarrow> string list \<Rightarrow> fs \<Rightarrow> nat \<Rightarrow> fs \<times> nat" where
  "postprocess_loop folder [] fs processed_count = (fs, processed_count)"
| "postprocess_loop folder (rgba_file # rgba_files) fs processed_count =
     (case postprocess_one fs folder rgba_file of
        None \<Rightarrow> postprocess_loop folder rgba_files fs processed_count
      | Some fs' \<Rightarrow> postprocess_loop folder rgba_files fs' (processed_count + 1))"

definition postprocess_segmented_images :: "fs \<Rightarrow> path \<Rightarrow> exn + (bool \<times> nat \<times> fs)" where
  "postprocess_segmented_images fs segmented_images_folder =
     (if \<not> path_exists fs segmented_images_folder then Inr (False, 0, fs)
      else
        case listdir fs segmented_images_folder of
          Inl e \<Rightarrow> Inl e
        | Inr names \<Rightarrow>
            let rgba_files = sort (filter is_png names) in
            if rgba_files = [] then Inr (False, 0, fs)
            else
              let (fs, processed_count) = postprocess_loop segmented_images_folder rgba_files fs 0
              in Inr (processed_count > 0, processed_count, fs))"

subsection \<open>\<open>process_object_directory\<close>\<close>

text \<open>The result is the returned Boolean and the file system the run leaves.\<close>

definition process_object_directory :: "cv2 \<Rightarrow> fs \<Rightarrow> path \<Rightarrow> exn + (bool \<times> fs)" where
  "process_object_directory cv fs obj_path =
     (let train_pbr_path = path_join obj_path ''train_pbr'';
          base_000000_path = path_join train_pbr_path ''000000'';
          vggt_path = path_join train_pbr_path ''vggt''
      in if \<not> path_exists fs base_000000_path then Inr (False, fs)
         else
           (let rgb_folder = path_join base_000000_path ''rgb'';
                mask_folder = path_join base_000000_path ''mask'';
                rgb_mask_000000 = path_join base_000000_path ''rgb_mask''
            in (case combine_rgb_mask cv fs rgb_folder mask_folder rgb_mask_000000 of
                  Inl e \<Rightarrow> Inl e
                | Inr (ok, n, fs) \<Rightarrow>
                   (if \<not> ok then Inr (False, fs)
                    else
                     (let segmented_path = path_join vggt_path ''segmented'';
                          surface_path = path_join vggt_path ''surface'';
                          segmented_images = path_join segmented_path ''images'';
                          segmented_masks = path_join segmented_path ''masks'';
                          surface_images = path_join surface_path ''images'';
                          surface_masks = path_join surface_path ''masks''
                      in (case copy_and_rename_mask_images fs mask_folder segmented_masks (0, 30) of
                            Inl e \<Rightarrow> Inl e
                          | Inr (fs, c1) \<Rightarrow>
                      (case copy_and_rename_mask_images fs mask_folder surface_masks (0, 20) of
                            Inl e \<Rightarrow> Inl e
                          | Inr (fs, c2) \<Rightarrow>
                      (case copy_images_to_directory fs rgb_mask_000000 surface_images (0, 20) of
                            Inl e \<Rightarrow> Inl e
                          | Inr (fs, c3) \<Rightarrow>
                      (case copy_images_to_directory fs rgb_mask_000000 segmented_images (0, 30) of
                            Inl e \<Rightarrow> Inl e
                          | Inr (fs, c4) \<Rightarrow>
                      (case postprocess_segmented_images fs segmented_images of
                            Inl e \<Rightarrow> Inl e
                          | Inr (ok', n', fs) \<Rightarrow> Inr (True, fs)))))))))))"

subsection \<open>Notions used to state what the functions do\<close>

text \<open>
  Background suppression as the data model words it, on a stored RGBA image: a pixel whose
  alpha value is below 10 gets its three colour values set to zero, and the alpha value
  stays.
\<close>

definition suppressed ::
  "(u8 \<times> u8 \<times> u8 \<times> u8) list list \<Rightarrow> (u8 \<times> u8 \<times> u8 \<times> u8) list list" where
  "suppressed px = map (map (\<lambda>(r, g, b, a). if a < 10 then (0, 0, 0, a) else (r, g, b, a))) px"

text \<open>What one pass of the suppression loop stores for a file with content \<open>c\<close>;
  \<open>None\<close> when the pass skips the file.\<close>

definition postprocessed :: "content \<Rightarrow> content option" where
  "postprocessed c =
     (case c of
        RgbaPng px \<Rightarrow> if concat px = [] then None else Some (RgbaPng (suppressed px))
      | _ \<Rightarrow> None)"

text \<open>
  For the idempotence proof: a path holds a file the loop body processes; a path holds
  content that a pass leaves as it is; and one file system comes from another by passes
  over some of its files.
\<close>


definition will_process :: "fs \<Rightarrow> path \<Rightarrow> bool" where
  "will_process fs p = (\<exists>c c'. map_of fs p = Some (File c) \<and> postprocessed c = Some c')"

definition settled :: "fs \<Rightarrow> path \<Rightarrow> bool" where
  "settled fs p = (\<forall>c c'. map_of fs p = Some (File c) \<longrightarrow> postprocessed c = Some c' \<longrightarrow> c' = c)"

definition passes :: "fs \<Rightarrow> fs \<Rightarrow> bool" where
  "passes fs fs' =
     (map fst fs' = map fst fs \<and>
      (\<forall>p. map_of fs' p = map_of fs p \<or>
           (\<exists>c c'. map_of fs p = Some (File c) \<and> postprocessed c = Some c'
                  \<and> map_of fs' p = Some (File c'))))"

text \<open>The alpha values of a stored RGBA image, as an array of the image's shape.\<close>


definition stored_alpha :: "(u8 \<times> u8 \<times> u8 \<times> u8) list list \<Rightarrow> u8 list list" where
  "stored_alpha px = map (map (\<lambda>(r, g, b, a). a)) px"

text \<open>
  A concrete instance of the two library functions left open, used to run the compositor
  on example inputs: grey is the green value, and resizing takes the nearest source pixel.
\<close>

definition nearest :: cv2 where
  "nearest = \<lparr> rgb_to_gray = (\<lambda>r g b. g),
                interpolate = (\<lambda>src h w y x. src ! (y * length src div h) ! (x * width src div w)) \<rparr>"

text \<open>The number a string of decimal digits denotes, used to show that the formatted
  indices of distinct numbers differ.\<close>

definition digits_value :: "string \<Rightarrow> nat" where
  "digits_value s = foldl (\<lambda>a c. 10 * a + (of_char c - 48)) 0 s"

text \<open>
  For the run of the whole pipeline: a file system \<open>fs'\<close> comes from \<open>fs\<close> by creating
  folders of \<open>D\<close> (a path that leads to one of them and did not exist is now a
  directory) and by writing files directly in folders of \<open>D\<close>; every other path is as it
  was.
\<close>

definition grown :: "path set \<Rightarrow> fs \<Rightarrow> fs \<Rightarrow> bool" where
  "grown D fs fs' =
     (\<forall>q. map_of fs' q = map_of fs q
        \<or> (\<exists>d \<in> D. q \<noteq> [] \<and> (\<exists>t. d = q @ t) \<and> map_of fs q = None \<and> map_of fs' q = Some Dir)
        \<or> (\<exists>d \<in> D. \<exists>x c. q = path_join d x \<and> map_of fs' q = Some (File c)))"


section \<open>Background suppression\<close>

subsection \<open>The pixel transform and the loop body\<close>


lemma map2_same: "map2 f (map h xs) (map g xs) = map (\<lambda>x. f (h x) (g x)) xs"
  by (induction xs) auto

lemma zero_channel_map:
  "zero_channel (map (map h) a) (map (map g) a) c = map (map (\<lambda>p. if g p then (h p)[c := 0] else h p)) a"
proof -
  have "\<And>r. map2 (\<lambda>p b. if b then p[c := 0] else p) (map h r) (map g r)
        = map (\<lambda>p. if g p then (h p)[c := 0] else h p) r"
    by (rule map2_same)
  then show ?thesis
    unfolding zero_channel_def by (simp add: map2_same)
qed

lemma suppress_background_pixelwise:
  "suppress_background a = map (map (\<lambda>p. if p ! 3 < 10 then p[0 := 0, 1 := 0, 2 := 0] else p)) a"
proof -
  let ?g = "\<lambda>p::u8 list. p ! 3 < 10"
  have bg: "background_mask a = map (map ?g) a"
    by (simp add: background_mask_def alpha_channel_def)
  have s0: "zero_channel a (map (map ?g) a) 0 = map (map (\<lambda>p. if ?g p then p[0 := 0] else p)) a"
    using zero_channel_map [of "\<lambda>p. p" a ?g 0] by simp
  show ?thesis
    unfolding suppress_background_def Let_def bg s0
    by (simp add: zero_channel_map cong: if_cong) 
qed

lemma encode_suppress:
  "encode_bgra (suppress_background (map (map (\<lambda>(r, g, b, a). [b, g, r, a])) px))
     = RgbaPng (map (map (\<lambda>(r, g, b, a). if a < 10 then (0, 0, 0, a) else (r, g, b, a))) px)"
  by (simp add: suppress_background_pixelwise encode_bgra_def comp_def split_def)
lemma width_concat_map:
  "(\<And>x. length (h x) = n) \<Longrightarrow> width (concat (map (map h) px)) = (if concat px = [] then 0 else n)"
proof (induction px)
  case Nil
  then show ?case by (simp add: width_def)
next
  case (Cons r px)
  then show ?case by (cases r) (auto simp: width_def)
qed

lemma channels_rgba: "shape (Arr3 (map (map (\<lambda>(r, g, b, a). [b, g, r, a])) px)) ! 2 = (if concat px = [] then 0 else 4)"
  using width_concat_map [of "\<lambda>(r, g, b, a). [b, g, r, a]" 4 px]
  by (simp add: shape_def split_def)

lemma channels_rgb: "shape (Arr3 (map (map (\<lambda>(r, g, b). [b, g, r])) px)) ! 2 = (if concat px = [] then 0 else 3)"
  using width_concat_map [of "\<lambda>(r, g, b). [b, g, r]" 3 px]
  by (simp add: shape_def split_def)

lemma postprocess_one_eq:
  "postprocess_one fs d f =
     (case map_of fs (path_join d f) of
        Some (File c) \<Rightarrow>
          (case postprocessed c of
             None \<Rightarrow> None
           | Some c' \<Rightarrow> Some (case write_file fs (path_join d f) c' of Inl e \<Rightarrow> fs | Inr fs' \<Rightarrow> fs'))
      | _ \<Rightarrow> None)"
proof (cases "map_of fs (path_join d f)")
  case None
  then show ?thesis by (simp add: postprocess_one_def imread_UNCHANGED_def)
next
  case (Some e)
  show ?thesis
  proof (cases e)
    case Dir
    with Some show ?thesis by (simp add: postprocess_one_def imread_UNCHANGED_def)
  next
    case (File c)
    show ?thesis
    proof (cases c)
      case (RgbaPng px)
      with Some File show ?thesis
        using encode_suppress [of px]
        by (simp add: postprocess_one_def imread_UNCHANGED_def postprocessed_def channels_rgba
            imwrite_def suppressed_def del: shape_def)
    qed (use Some File in \<open>simp_all add: postprocess_one_def imread_UNCHANGED_def postprocessed_def channels_rgb\<close>)
  qed
qed

lemma suppressed_idem: "suppressed (suppressed px) = suppressed px"
  by (simp add: suppressed_def comp_def split_def if_distrib cong: if_cong)

lemma concat_suppressed: "concat (suppressed px) = [] \<longleftrightarrow> concat px = []"
  by (simp add: suppressed_def)

lemma postprocessed_idem: "postprocessed c = Some c' \<Longrightarrow> postprocessed c' = Some c'"
  by (cases c) (auto simp: postprocessed_def suppressed_idem concat_suppressed
      simp del: concat_eq_Nil_conv split: if_splits)


lemma write_file_ok:
  "map_of fs p \<noteq> Some Dir \<Longrightarrow> map_of fs d = Some Dir \<Longrightarrow> p = path_join d f
   \<Longrightarrow> write_file fs p c = Inr (AList.update p (File c) fs)"
  by (simp add: write_file_def path_join_def)






subsection \<open>The alpha channel and the other files are left alone\<close>

lemma stored_alpha_suppressed: "stored_alpha (suppressed px) = stored_alpha px"
  by (simp add: stored_alpha_def suppressed_def comp_def split_def if_distrib cong: if_cong)

lemma suppressed_foreground:
  "y < length px \<Longrightarrow> x < length (px ! y) \<Longrightarrow> \<not> snd (snd (snd (px ! y ! x))) < 10
   \<Longrightarrow> suppressed px ! y ! x = px ! y ! x"
  by (simp add: suppressed_def split_def)

text \<open>
  Claim C5.  When the suppression loop processes an image, the stored result has the
  alpha value of the original at every pixel position (and so the same shape), a pixel
  whose alpha value is not below 10 is stored as it was, and no other path of the file
  system changes.
\<close>

theorem postprocess_keeps_alpha:
  assumes "postprocess_one fs folder f = Some fs'"
  shows "\<exists>px px'. map_of fs (path_join folder f) = Some (File (RgbaPng px))
           \<and> map_of fs' (path_join folder f) = Some (File (RgbaPng px'))
           \<and> stored_alpha px' = stored_alpha px
           \<and> (\<forall>y < length px. \<forall>x < length (px ! y).
                 \<not> snd (snd (snd (px ! y ! x))) < 10 \<longrightarrow> px' ! y ! x = px ! y ! x)
           \<and> (\<forall>q. q \<noteq> path_join folder f \<longrightarrow> map_of fs' q = map_of fs q)"
proof -
  let ?p = "path_join folder f"
  from assms obtain c c' where c: "map_of fs ?p = Some (File c)" and c': "postprocessed c = Some c'"
    and fs': "fs' = (case write_file fs ?p c' of Inl e \<Rightarrow> fs | Inr fs'' \<Rightarrow> fs'')"
    by (auto simp: postprocess_one_eq split: option.splits entry.splits)
  from c' obtain px where px: "c = RgbaPng px" and cs: "c' = RgbaPng (suppressed px)"
    by (auto simp: postprocessed_def split: content.splits if_splits)
  consider (unwritten) "fs' = fs" | (written) "fs' = AList.update ?p (File c') fs"
    using fs' by (auto simp: write_file_def split: if_splits)
  then show ?thesis
  proof cases
    case unwritten
    with c px show ?thesis by simp
  next
    case written
    have "map_of fs' ?p = Some (File (RgbaPng (suppressed px)))"
      by (simp add: written cs update_conv')
    moreover have "\<forall>q. q \<noteq> ?p \<longrightarrow> map_of fs' q = map_of fs q"
      by (simp add: written update_conv')
    moreover have "\<forall>y < length px. \<forall>x < length (px ! y).
        \<not> snd (snd (snd (px ! y ! x))) < 10 \<longrightarrow> suppressed px ! y ! x = px ! y ! x"
      by (simp add: suppressed_foreground)
    ultimately show ?thesis
      using c px stored_alpha_suppressed [of px] by blast
  qed
qed

theorem postprocess_keeps_alpha_witness:
  "\<exists>px px'. map_of [([''seg''], Dir), ([''seg'', ''000000.png''], File (RgbaPng [[(1, 2, 3, 9), (4, 5, 6, 10)]])),
                 ([''seg'', ''000001.png''], File (RgbaPng [[(7, 7, 7, 0)]]))]
              (path_join [''seg''] ''000000.png'') = Some (File (RgbaPng px))
     \<and> map_of [([''seg''], Dir), ([''seg'', ''000000.png''], File (RgbaPng [[(0, 0, 0, 9), (4, 5, 6, 10)]])),
                 ([''seg'', ''000001.png''], File (RgbaPng [[(7, 7, 7, 0)]]))]
              (path_join [''seg''] ''000000.png'') = Some (File (RgbaPng px'))
     \<and> stored_alpha px' = stored_alpha px"
proof -
  have run: "postprocess_one
      [([''seg''], Dir), ([''seg'', ''000000.png''], File (RgbaPng [[(1, 2, 3, 9), (4, 5, 6, 10)]])),
       ([''seg'', ''000001.png''], File (RgbaPng [[(7, 7, 7, 0)]]))] [''seg''] ''000000.png''
    = Some [([''seg''], Dir), ([''seg'', ''000000.png''], File (RgbaPng [[(0, 0, 0, 9), (4, 5, 6, 10)]])),
       ([''seg'', ''000001.png''], File (RgbaPng [[(7, 7, 7, 0)]]))]"
    by code_simp
  from postprocess_keeps_alpha [OF run] show ?thesis by blast
qed

subsection \<open>A second run changes nothing\<close>

lemma passes_refl: "passes fs fs"
  by (simp add: passes_def)

lemma passes_trans:
  assumes "passes fs fs1" and "passes fs1 fs2"
  shows "passes fs fs2"
proof -
  have keys: "map fst fs2 = map fst fs"
    using assms by (simp add: passes_def)
  have "map_of fs2 p = map_of fs p \<or>
        (\<exists>c c'. map_of fs p = Some (File c) \<and> postprocessed c = Some c'
               \<and> map_of fs2 p = Some (File c'))" for p
  proof -
    from assms(1) consider (same1) "map_of fs1 p = map_of fs p"
      | (chg1) c c' where "map_of fs p = Some (File c)" "postprocessed c = Some c'"
          "map_of fs1 p = Some (File c')"
      unfolding passes_def by blast
    then show ?thesis
    proof cases
      case same1
      with assms(2) show ?thesis unfolding passes_def by metis
    next
      case chg1
      from assms(2) consider (same2) "map_of fs2 p = map_of fs1 p"
        | (chg2) d d' where "map_of fs1 p = Some (File d)" "postprocessed d = Some d'"
            "map_of fs2 p = Some (File d')"
        unfolding passes_def by blast
      then show ?thesis
      proof cases
        case same2
        with chg1 show ?thesis by simp
      next
        case chg2
        with chg1 have "d = c'" by simp
        with chg1(2) chg2(2) have "d' = c'"
          using postprocessed_idem [of c c'] by simp
        with chg1 chg2 show ?thesis by simp
      qed
    qed
  qed
  with keys show ?thesis unfolding passes_def by blast
qed

lemma passes_dir: "passes fs fs' \<Longrightarrow> map_of fs' p = Some Dir \<longleftrightarrow> map_of fs p = Some Dir"
  unfolding passes_def by (metis entry.distinct(1) option.inject)

lemma passes_will_process: "passes fs fs' \<Longrightarrow> will_process fs' p \<longleftrightarrow> will_process fs p"
  unfolding passes_def will_process_def
  by (metis entry.inject option.inject postprocessed_idem)

lemma passes_settled: "passes fs fs' \<Longrightarrow> settled fs p \<Longrightarrow> settled fs' p"
  unfolding passes_def settled_def
  by (metis entry.inject option.inject)

lemma not_will_process_settled: "\<not> will_process fs p \<Longrightarrow> settled fs p"
  by (auto simp: will_process_def settled_def)

lemma postprocess_one_will_process:
  "postprocess_one fs d f \<noteq> None \<longleftrightarrow> will_process fs (path_join d f)"
  by (auto simp: postprocess_one_eq will_process_def split: option.splits entry.splits)

lemma postprocess_one_step:
  assumes dir: "map_of fs d = Some Dir" and step: "postprocess_one fs d f = Some fs'"
  shows "passes fs fs' \<and> settled fs' (path_join d f)"
proof -
  let ?p = "path_join d f"
  from step obtain c c' where c: "map_of fs ?p = Some (File c)" and c': "postprocessed c = Some c'"
    and fs': "fs' = (case write_file fs ?p c' of Inl e \<Rightarrow> fs | Inr fs'' \<Rightarrow> fs'')"
    by (auto simp: postprocess_one_eq split: option.splits entry.splits)
  have w: "write_file fs ?p c' = Inr (AList.update ?p (File c') fs)"
    by (rule write_file_ok [OF _ dir refl]) (simp add: c)
  with fs' have upd: "fs' = AList.update ?p (File c') fs" by simp
  have "?p \<in> fst ` set fs"
    using c by (metis domI dom_map_of_conv_image_fst)
  then have keys: "map fst fs' = map fst fs"
    by (simp add: upd update_keys)
  have "passes fs fs'"
    unfolding passes_def using keys c c' by (auto simp: upd update_conv')
  moreover have "settled fs' ?p"
    using postprocessed_idem [OF c'] by (simp add: settled_def upd update_conv')
  ultimately show ?thesis ..
qed

lemma postprocess_loop_first:
  assumes "map_of fs d = Some Dir" and "postprocess_loop d fl fs n = (fs', n')"
  shows "passes fs fs' \<and> (\<forall>f\<in>set fl. settled fs' (path_join d f))
         \<and> n' = n + length (filter (\<lambda>f. will_process fs' (path_join d f)) fl)"
  using assms
proof (induction fl arbitrary: fs n)
  case Nil
  then show ?case by (simp add: passes_refl)
next
  case (Cons f fl)
  show ?case
  proof (cases "postprocess_one fs d f")
    case None
    with Cons.prems have loop: "postprocess_loop d fl fs n = (fs', n')" by simp
    from Cons.IH [OF Cons.prems(1) loop]
    have ih: "passes fs fs'" "\<forall>g\<in>set fl. settled fs' (path_join d g)"
      "n' = n + length (filter (\<lambda>g. will_process fs' (path_join d g)) fl)" by auto
    from None have "\<not> will_process fs (path_join d f)"
      using postprocess_one_will_process [of fs d f] by simp
    with ih(1) have nw: "\<not> will_process fs' (path_join d f)"
      by (simp add: passes_will_process)
    then have "settled fs' (path_join d f)" by (rule not_will_process_settled)
    with ih nw show ?thesis by simp
  next
    case (Some fs1)
    with Cons.prems have loop: "postprocess_loop d fl fs1 (n + 1) = (fs', n')" by simp
    from postprocess_one_step [OF Cons.prems(1) Some]
    have st: "passes fs fs1" "settled fs1 (path_join d f)" by auto
    have dir1: "map_of fs1 d = Some Dir"
      using st(1) Cons.prems(1) by (simp add: passes_dir)
    from Cons.IH [OF dir1 loop]
    have ih: "passes fs1 fs'" "\<forall>g\<in>set fl. settled fs' (path_join d g)"
      "n' = n + 1 + length (filter (\<lambda>g. will_process fs' (path_join d g)) fl)" by auto
    have p: "passes fs fs'" using st(1) ih(1) by (rule passes_trans)
    have s: "settled fs' (path_join d f)" using ih(1) st(2) by (rule passes_settled)
    from Some have "will_process fs (path_join d f)"
      using postprocess_one_will_process [of fs d f] by simp
    with p have "will_process fs' (path_join d f)" by (simp add: passes_will_process)
    with p s ih show ?thesis by simp
  qed
qed

lemma settled_postprocess_one:
  assumes "settled fs (path_join d f)"
  shows "postprocess_one fs d f = (if will_process fs (path_join d f) then Some fs else None)"
proof (cases "will_process fs (path_join d f)")
  case False
  then show ?thesis using postprocess_one_will_process [of fs d f] by simp
next
  case True
  then obtain c c' where c: "map_of fs (path_join d f) = Some (File c)"
    and c': "postprocessed c = Some c'" by (auto simp: will_process_def)
  with assms have eq: "c' = c" by (simp add: settled_def)
  have "(case write_file fs (path_join d f) c of Inl e \<Rightarrow> fs | Inr fs'' \<Rightarrow> fs'') = fs"
    using c by (simp add: write_file_def update_triv)
  with True c c' eq show ?thesis by (simp add: postprocess_one_eq)
qed

lemma postprocess_loop_settled:
  "\<forall>f\<in>set fl. settled fs (path_join d f) \<Longrightarrow>
   postprocess_loop d fl fs n = (fs, n + length (filter (\<lambda>f. will_process fs (path_join d f)) fl))"
  by (induction fl arbitrary: n) (simp_all add: settled_postprocess_one)

lemma children_keys:
  "children fs d = remdups (map last (filter (\<lambda>p. p \<noteq> [] \<and> butlast p = d) (map fst fs)))"
  by (simp add: children_def filter_map comp_def split_def)

text \<open>
  Claim C4.  Running \<open>postprocess_segmented_images\<close> on the file system a first run
  left returns the same result and leaves every file as the first run left it: a second
  pass changes no pixel, because the first pass kept every alpha value.
\<close>

theorem postprocess_segmented_images_idempotent:
  assumes "postprocess_segmented_images fs folder = Inr (ok, n, fs')"
  shows "postprocess_segmented_images fs' folder = Inr (ok, n, fs')"
proof (cases "path_exists fs folder")
  case False
  with assms show ?thesis by (simp add: postprocess_segmented_images_def)
next
  case True
  with assms obtain names where ls: "listdir fs folder = Inr names"
    by (auto simp: postprocess_segmented_images_def split: sum.splits)
  then have dir: "map_of fs folder = Some Dir" and names: "names = children fs folder"
    by (auto simp: listdir_def split: option.splits entry.splits)
  let ?files = "sort (filter is_png names)"
  show ?thesis
  proof (cases "?files = []")
    case True
    with assms \<open>path_exists fs folder\<close> ls show ?thesis
      by (simp add: postprocess_segmented_images_def)
  next
    case False
    with assms \<open>path_exists fs folder\<close> ls
    have loop: "postprocess_loop folder ?files fs 0 = (fs', n)" and ok: "ok = (n > 0)"
      by (auto simp: postprocess_segmented_images_def Let_def split: prod.splits)
    from postprocess_loop_first [OF dir loop]
    have p: "passes fs fs'" and s: "\<forall>f\<in>set ?files. settled fs' (path_join folder f)"
      and n: "n = length (filter (\<lambda>f. will_process fs' (path_join folder f)) ?files)" by auto
    have dir': "map_of fs' folder = Some Dir" using p dir by (simp add: passes_dir)
    have "children fs' folder = children fs folder"
      using p by (simp add: children_keys passes_def)
    with dir' names have ls': "listdir fs' folder = Inr names" by (simp add: listdir_def)
    have ex': "path_exists fs' folder" using dir' by (simp add: path_exists_def)
    have "postprocess_loop folder ?files fs' 0 = (fs', n)"
      using postprocess_loop_settled [OF s, of 0] n by simp
    with ex' ls' False ok show ?thesis
      by (simp add: postprocess_segmented_images_def)
  qed
qed

theorem postprocess_segmented_images_idempotent_witness:
  "postprocess_segmented_images
     [([''seg''], Dir),
      ([''seg'', ''000000.png''], File (RgbaPng [[(0, 0, 0, 9), (4, 5, 6, 10)]])),
      ([''seg'', ''notes.txt''], File Undecodable)] [''seg'']
   = Inr (True, 1,
     [([''seg''], Dir),
      ([''seg'', ''000000.png''], File (RgbaPng [[(0, 0, 0, 9), (4, 5, 6, 10)]])),
      ([''seg'', ''notes.txt''], File Undecodable)])"
proof -
  have first: "postprocess_segmented_images
     [([''seg''], Dir),
      ([''seg'', ''000000.png''], File (RgbaPng [[(1, 2, 3, 9), (4, 5, 6, 10)]])),
      ([''seg'', ''notes.txt''], File Undecodable)] [''seg'']
   = Inr (True, 1,
     [([''seg''], Dir),
      ([''seg'', ''000000.png''], File (RgbaPng [[(0, 0, 0, 9), (4, 5, 6, 10)]])),
      ([''seg'', ''notes.txt''], File Undecodable)])"
    by code_simp
  show ?thesis
    by (rule postprocess_segmented_images_idempotent [OF first])
qed
subsection \<open>The composite that the loop body of \<open>combine_rgb_mask\<close> writes\<close>


lemma rect_row: "rect a \<Longrightarrow> y < length a \<Longrightarrow> length (a ! y) = width a"
  by (simp add: rect_def list_all_length)

lemma rect_pos: "rect a \<Longrightarrow> 0 < length a \<and> 0 < width a"
  by (simp add: rect_def)

lemma width_map: "width (map (map h) a) = width a"
  by (cases a) (simp_all add: width_def)

lemma rect_map: "rect (map (map h) a) = rect a"
  by (simp add: rect_def width_map list_all_length)

lemma decode_color_pixel:
  assumes "decode_color c = Some a" and "y < length a" and "x < length (a ! y)"
  shows "length (a ! y ! x) = 3"
  using assms by (cases c) (auto simp: split_def)

lemma bgr2rgb_length: "length (bgr2rgb p) = length p"
  by (induction p rule: bgr2rgb.induct) simp_all

lemma imread_pixel:
  assumes "imread fs p = Some a" and "y < length a" and "x < length (a ! y)"
  shows "length (cvtColor_BGR2RGB a ! y ! x) = 3"
proof -
  from assms(1) obtain c where "decode_color c = Some a"
    by (auto simp: imread_def split: option.splits entry.splits)
  then have "length (a ! y ! x) = 3"
    using assms(2,3) by (rule decode_color_pixel)
  then show ?thesis
    using assms(2,3) by (simp add: cvtColor_BGR2RGB_def bgr2rgb_length)
qed

lemma merge_pixel:
  assumes r: "rect rgb" and m: "rect msk" and sh: "shape2 rgb = shape2 msk"
    and y: "y < length rgb" and x: "x < width rgb" and three: "length (rgb ! y ! x) = 3"
  shows "set_alpha (set_rgb (zeros4 (length rgb) (width rgb)) rgb) msk ! y ! x
           = [rgb ! y ! x ! 0, rgb ! y ! x ! 1, rgb ! y ! x ! 2, msk ! y ! x]"
proof -
  have lm: "length msk = length rgb" and wm: "width msk = width rgb"
    using sh by (simp_all add: shape2_def)
  have ry: "length (rgb ! y) = width rgb" using r y by (rule rect_row)
  have my: "length (msk ! y) = width rgb" using rect_row [OF m, of y] y lm wm by simp
  obtain a b c where q: "rgb ! y ! x = [a, b, c]"
    using three by (cases "rgb ! y ! x" rule: bgr2rgb.cases) simp_all
  show ?thesis
    using y x lm ry my by (simp add: set_alpha_def set_rgb_def zeros4_def q)
qed

lemma merge_shape:
  assumes r: "rect rgb" and m: "rect msk" and sh: "shape2 rgb = shape2 msk"
  shows "length (set_alpha (set_rgb (zeros4 (length rgb) (width rgb)) rgb) msk) = length rgb"
    and "y < length rgb \<Longrightarrow>
         length (set_alpha (set_rgb (zeros4 (length rgb) (width rgb)) rgb) msk ! y) = width rgb"
proof -
  have lm: "length msk = length rgb" and wm: "width msk = width rgb"
    using sh by (simp_all add: shape2_def)
  show "length (set_alpha (set_rgb (zeros4 (length rgb) (width rgb)) rgb) msk) = length rgb"
    using lm by (simp add: set_alpha_def set_rgb_def zeros4_def)
  assume y: "y < length rgb"
  have ry: "length (rgb ! y) = width rgb" using r y by (rule rect_row)
  have my: "length (msk ! y) = width rgb" using rect_row [OF m, of y] y lm wm by simp
  show "length (set_alpha (set_rgb (zeros4 (length rgb) (width rgb)) rgb) msk ! y) = width rgb"
    using y lm ry my by (simp add: set_alpha_def set_rgb_def zeros4_def)
qed


lemma cvt_shape: "shape2 (cvtColor_BGR2RGB a) = shape2 a" "rect (cvtColor_BGR2RGB a) = rect a"
  "length (cvtColor_BGR2RGB a) = length a" "width (cvtColor_BGR2RGB a) = width a"
  by (simp_all add: cvtColor_BGR2RGB_def shape2_def width_map rect_map)

lemma imread_gray_exists: "imread_GRAYSCALE cv fs p = Some m \<Longrightarrow> path_exists fs p"
  by (auto simp: imread_GRAYSCALE_def path_exists_def split: option.splits)

lemma composite_stored:
  assumes r: "rect rgb" and m: "rect msk" and sh: "shape2 rgb = shape2 msk"
    and three: "\<forall>y < length rgb. \<forall>x < length (rgb ! y). length (rgb ! y ! x) = 3"
    and px: "fromarray_RGBA (set_alpha (set_rgb (zeros4 (length rgb) (width rgb)) rgb) msk) = RgbaPng px"
  shows "shape2 px = shape2 rgb \<and> rect px
       \<and> (\<forall>y < length rgb. \<forall>x < width rgb.
            px ! y ! x = (rgb ! y ! x ! 0, rgb ! y ! x ! 1, rgb ! y ! x ! 2, msk ! y ! x))"
proof -
  let ?a = "set_alpha (set_rgb (zeros4 (length rgb) (width rgb)) rgb) msk"
  have pxa: "px = map (map rgba_pixel) ?a" using px by (simp add: fromarray_RGBA_def)
  have la: "length ?a = length rgb" using r m sh by (rule merge_shape(1))
  have ra: "\<And>y. y < length rgb \<Longrightarrow> length (?a ! y) = width rgb"
    using r m sh by (rule merge_shape(2))
  have pos: "0 < length rgb" "0 < width rgb" using rect_pos [OF r] by simp_all
  have w: "width ?a = width rgb"
    using ra [of 0] pos la by (cases ?a) (simp_all add: width_def)
  have "rect ?a"
    using la ra pos w by (auto simp: rect_def list_all_length)
  then have "rect px" by (simp add: pxa rect_map)
  moreover have "shape2 px = shape2 rgb"
    by (simp add: pxa shape2_def width_map la w)
  moreover have "px ! y ! x = (rgb ! y ! x ! 0, rgb ! y ! x ! 1, rgb ! y ! x ! 2, msk ! y ! x)"
    if y: "y < length rgb" and x: "x < width rgb" for y x
  proof -
    have "length (rgb ! y) = width rgb" using r y by (rule rect_row)
    then have "length (rgb ! y ! x) = 3" using three y x by simp
    then have "?a ! y ! x = [rgb ! y ! x ! 0, rgb ! y ! x ! 1, rgb ! y ! x ! 2, msk ! y ! x]"
      using r m sh y x by (simp add: merge_pixel)
    then show ?thesis using y x la ra [OF y] by (simp add: pxa)
  qed
  ultimately show ?thesis by blast
qed

lemma combine_one_unfold:
  assumes "imread fs (path_join rgb_folder f) = Some bgr"
    and "imread_GRAYSCALE cv fs (path_join mask_folder (splitext_root f @ ''_000000.png'')) = Some msk"
  shows "combine_one cv fs rgb_folder mask_folder output_folder f =
     (case (if shape2 (cvtColor_BGR2RGB bgr) \<noteq> shape2 msk
            then resize cv msk (width (cvtColor_BGR2RGB bgr)) (length (cvtColor_BGR2RGB bgr))
            else Some msk) of
        None \<Rightarrow> None
      | Some a \<Rightarrow>
         (case write_file fs (path_join output_folder (splitext_root f @ ''.png''))
                 (fromarray_RGBA (set_alpha (set_rgb (zeros4 (length (cvtColor_BGR2RGB bgr))
                     (width (cvtColor_BGR2RGB bgr))) (cvtColor_BGR2RGB bgr)) a)) of
            Inl e \<Rightarrow> None | Inr fs' \<Rightarrow> Some fs'))"
  unfolding combine_one_def Let_def using assms imread_gray_exists [OF assms(2)] by simp

lemma combine_one_same_shape:
  assumes bgr: "imread fs (path_join rgb_folder f) = Some bgr"
    and msk: "imread_GRAYSCALE cv fs (path_join mask_folder (splitext_root f @ ''_000000.png''))
                = Some msk"
    and r: "rect bgr" and m: "rect msk"
    and sh: "shape2 bgr = shape2 msk"
    and dir: "map_of fs output_folder = Some Dir"
    and nodir: "map_of fs (path_join output_folder (splitext_root f @ ''.png'')) \<noteq> Some Dir"
  shows "\<exists>fs' px. combine_one cv fs rgb_folder mask_folder output_folder f = Some fs'
           \<and> map_of fs' (path_join output_folder (splitext_root f @ ''.png''))
                 = Some (File (RgbaPng px))
           \<and> shape2 px = shape2 bgr \<and> rect px
           \<and> (\<forall>y < length bgr. \<forall>x < width bgr.
                 px ! y ! x = (cvtColor_BGR2RGB bgr ! y ! x ! 0, cvtColor_BGR2RGB bgr ! y ! x ! 1,
                               cvtColor_BGR2RGB bgr ! y ! x ! 2, msk ! y ! x))"
proof -
  let ?rgb = "cvtColor_BGR2RGB bgr"
  let ?out = "path_join output_folder (splitext_root f @ ''.png'')"
  let ?a = "set_alpha (set_rgb (zeros4 (length ?rgb) (width ?rgb)) ?rgb) msk"
  obtain px where px: "fromarray_RGBA ?a = RgbaPng px" by (simp add: fromarray_RGBA_def)
  have sh': "shape2 ?rgb = shape2 msk" using sh by (simp add: cvt_shape)
  have r': "rect ?rgb" using r by (simp add: cvt_shape)
  have wr: "write_file fs ?out (RgbaPng px) = Inr (AList.update ?out (File (RgbaPng px)) fs)"
    using nodir dir by (rule write_file_ok) simp
  have run: "combine_one cv fs rgb_folder mask_folder output_folder f
               = Some (AList.update ?out (File (RgbaPng px)) fs)"
    by (simp add: combine_one_unfold [OF bgr msk] sh' px wr)
  have stored: "map_of (AList.update ?out (File (RgbaPng px)) fs) ?out = Some (File (RgbaPng px))"
    by (simp add: update_conv')
  have three: "\<forall>y < length ?rgb. \<forall>x < length (?rgb ! y). length (?rgb ! y ! x) = 3"
    using imread_pixel [OF bgr] by (simp add: cvtColor_BGR2RGB_def)
  have c: "shape2 px = shape2 ?rgb \<and> rect px
       \<and> (\<forall>y < length ?rgb. \<forall>x < width ?rgb.
            px ! y ! x = (?rgb ! y ! x ! 0, ?rgb ! y ! x ! 1, ?rgb ! y ! x ! 2, msk ! y ! x))"
    using r' m sh' three px by (rule composite_stored)
  then have "combine_one cv fs rgb_folder mask_folder output_folder f
               = Some (AList.update ?out (File (RgbaPng px)) fs)
           \<and> map_of (AList.update ?out (File (RgbaPng px)) fs) ?out = Some (File (RgbaPng px))
           \<and> shape2 px = shape2 bgr \<and> rect px
           \<and> (\<forall>y < length bgr. \<forall>x < width bgr.
                 px ! y ! x = (?rgb ! y ! x ! 0, ?rgb ! y ! x ! 1, ?rgb ! y ! x ! 2, msk ! y ! x))"
    using run stored by (simp add: cvt_shape)
  then show ?thesis by (intro exI)
qed

lemma resize_shape:
  assumes "resize cv src w h = Some dst"
  shows "rect dst" and "shape2 dst = (h, w)"
    and "\<forall>y < h. \<forall>x < w. dst ! y ! x = interpolate cv src h w y x"
proof -
  from assms have pos: "0 < w" "0 < h"
    and dst: "dst = map (\<lambda>y. map (\<lambda>x. interpolate cv src h w y x) [0..<w]) [0..<h]"
    by (auto simp: resize_def split: if_splits)
  have ne: "dst \<noteq> []" using pos by (simp add: dst)
  then have "width dst = length (dst ! 0)" by (cases dst) (simp_all add: width_def)
  then have wd: "width dst = w" using pos by (simp add: dst)
  have len: "length dst = h" by (simp add: dst)
  have "\<forall>y < length dst. length (dst ! y) = w" by (simp add: dst)
  then show "rect dst" using pos wd ne by (simp add: rect_def list_all_length)
  show "shape2 dst = (h, w)" by (simp add: shape2_def wd len)
  show "\<forall>y < h. \<forall>x < w. dst ! y ! x = interpolate cv src h w y x" by (simp add: dst)
qed

lemma combine_one_other_shape:
  assumes bgr: "imread fs (path_join rgb_folder f) = Some bgr"
    and msk: "imread_GRAYSCALE cv fs (path_join mask_folder (splitext_root f @ ''_000000.png''))
                = Some msk"
    and r: "rect bgr" and m: "rect msk"
    and sh: "shape2 bgr \<noteq> shape2 msk"
    and dir: "map_of fs output_folder = Some Dir"
    and nodir: "map_of fs (path_join output_folder (splitext_root f @ ''.png'')) \<noteq> Some Dir"
  shows "\<exists>fs' px. combine_one cv fs rgb_folder mask_folder output_folder f = Some fs'
           \<and> map_of fs' (path_join output_folder (splitext_root f @ ''.png''))
                 = Some (File (RgbaPng px))
           \<and> shape2 px = shape2 bgr \<and> rect px
           \<and> (\<forall>y < length bgr. \<forall>x < width bgr.
                 px ! y ! x = (cvtColor_BGR2RGB bgr ! y ! x ! 0, cvtColor_BGR2RGB bgr ! y ! x ! 1,
                               cvtColor_BGR2RGB bgr ! y ! x ! 2,
                               interpolate cv msk (length bgr) (width bgr) y x))"
proof -
  let ?rgb = "cvtColor_BGR2RGB bgr"
  let ?out = "path_join output_folder (splitext_root f @ ''.png'')"
  have pos: "0 < length bgr" "0 < width bgr" using rect_pos [OF r] by simp_all
  have mpos: "msk \<noteq> []" "width msk \<noteq> 0" using rect_pos [OF m] by auto
  obtain msk' where rs: "resize cv msk (width ?rgb) (length ?rgb) = Some msk'"
    using pos mpos by (simp add: resize_def cvt_shape)
  let ?a = "set_alpha (set_rgb (zeros4 (length ?rgb) (width ?rgb)) ?rgb) msk'"
  obtain px where px: "fromarray_RGBA ?a = RgbaPng px" by (simp add: fromarray_RGBA_def)
  have sh0: "shape2 ?rgb \<noteq> shape2 msk" using sh by (simp add: cvt_shape)
  have wr: "write_file fs ?out (RgbaPng px) = Inr (AList.update ?out (File (RgbaPng px)) fs)"
    using nodir dir by (rule write_file_ok) simp
  have run: "combine_one cv fs rgb_folder mask_folder output_folder f
               = Some (AList.update ?out (File (RgbaPng px)) fs)"
    by (simp add: combine_one_unfold [OF bgr msk] sh0 rs px wr)
  have stored: "map_of (AList.update ?out (File (RgbaPng px)) fs) ?out = Some (File (RgbaPng px))"
    by (simp add: update_conv')
  have three: "\<forall>y < length ?rgb. \<forall>x < length (?rgb ! y). length (?rgb ! y ! x) = 3"
    using imread_pixel [OF bgr] by (simp add: cvtColor_BGR2RGB_def)
  have sh': "shape2 ?rgb = shape2 msk'"
    using resize_shape(2) [OF rs] by (simp add: shape2_def)
  have r': "rect ?rgb" using r by (simp add: cvt_shape)
  have c: "shape2 px = shape2 ?rgb \<and> rect px
       \<and> (\<forall>y < length ?rgb. \<forall>x < width ?rgb.
            px ! y ! x = (?rgb ! y ! x ! 0, ?rgb ! y ! x ! 1, ?rgb ! y ! x ! 2, msk' ! y ! x))"
    using r' resize_shape(1) [OF rs] sh' three px by (rule composite_stored)
  have i: "\<forall>y < length bgr. \<forall>x < width bgr.
             msk' ! y ! x = interpolate cv msk (length bgr) (width bgr) y x"
    using resize_shape(3) [OF rs] by (simp add: cvt_shape)
  have "combine_one cv fs rgb_folder mask_folder output_folder f
           = Some (AList.update ?out (File (RgbaPng px)) fs)
         \<and> map_of (AList.update ?out (File (RgbaPng px)) fs) ?out = Some (File (RgbaPng px))
         \<and> shape2 px = shape2 bgr \<and> rect px
         \<and> (\<forall>y < length bgr. \<forall>x < width bgr.
               px ! y ! x = (?rgb ! y ! x ! 0, ?rgb ! y ! x ! 1, ?rgb ! y ! x ! 2,
                             interpolate cv msk (length bgr) (width bgr) y x))"
    using c i run stored by (simp add: cvt_shape)
  then show ?thesis by (intro exI)
qed

subsection \<open>What the compositor and the suppression step report\<close>


lemma makedirs_from_dir:
  "makedirs_from fs d cs = Inr fs1 \<Longrightarrow> cs \<noteq> [] \<Longrightarrow> map_of fs1 (d @ cs) = Some Dir"
proof (induction cs arbitrary: fs d)
  case Nil
  then show ?case by simp
next
  case (Cons c cs)
  show ?case
  proof (cases "cs = []")
    case True
    with Cons.prems show ?thesis
      by (auto simp: update_conv' split: option.splits entry.splits)
  next
    case False
    from Cons.prems(1) obtain fs0 where "makedirs_from fs0 (d @ [c]) cs = Inr fs1"
      by (auto split: option.splits entry.splits)
    from Cons.IH [OF this False] show ?thesis by simp
  qed
qed

lemma makedirs_dir: "makedirs fs p = Inr fs1 \<Longrightarrow> p \<noteq> [] \<Longrightarrow> map_of fs1 p = Some Dir"
  using makedirs_from_dir [of fs "[]" p fs1] by (simp add: makedirs_def)

lemma combine_one_writes:
  assumes "combine_one cv fs rf mf out f = Some fs'"
  shows "\<exists>c. fs' = AList.update (path_join out (splitext_root f @ ''.png'')) (File c) fs"
proof -
  from assms obtain c where "write_file fs (path_join out (splitext_root f @ ''.png'')) c = Inr fs'"
    unfolding combine_one_def Let_def
    by (auto split: if_splits option.splits sum.splits)
  then show ?thesis by (auto simp: write_file_def split: if_splits)
qed

lemma combine_one_keeps_dir:
  assumes "combine_one cv fs rf mf out f = Some fs'" and "map_of fs out = Some Dir"
  shows "map_of fs' out = Some Dir"
proof -
  from combine_one_writes [OF assms(1)] obtain c where
    "fs' = AList.update (path_join out (splitext_root f @ ''.png'')) (File c) fs" ..
  then show ?thesis using assms(2) by (simp add: update_conv' path_join_def)
qed

lemma combine_loop_keeps_dir:
  "combine_loop cv rf mf out fl fs n = (fs', n') \<Longrightarrow> map_of fs out = Some Dir \<Longrightarrow> map_of fs' out = Some Dir"
proof (induction fl arbitrary: fs n)
  case Nil
  then show ?case by simp
next
  case (Cons f fl)
  show ?case
  proof (cases "combine_one cv fs rf mf out f")
    case None
    with Cons show ?thesis by simp
  next
    case (Some fs1)
    with Cons.prems have "combine_loop cv rf mf out fl fs1 (n + 1) = (fs', n')" by simp
    moreover have "map_of fs1 out = Some Dir" using Some Cons.prems(2) by (rule combine_one_keeps_dir)
    ultimately show ?thesis by (rule Cons.IH)
  qed
qed

text \<open>
  Claim C10.  When both input folders exist and the call returns, the output folder is a
  directory afterwards, whatever the call reports; the output folder is created before the
  colour folder is listed.  The example below is a call that reports failure because the
  colour folder holds no PNG file, on a file system where the output folder did not exist.
\<close>

theorem combine_rgb_mask_leaves_output_folder:
  assumes "path_exists fs rgb_folder" and "path_exists fs mask_folder"
    and "output_folder \<noteq> []"
    and "combine_rgb_mask cv fs rgb_folder mask_folder output_folder = Inr (ok, n, fs')"
  shows "map_of fs' output_folder = Some Dir"
proof -
  from assms(1,2,4) obtain fs1 names where mk: "makedirs fs output_folder = Inr fs1"
    and r: "(sort (filter is_png names) = [] \<and> fs' = fs1)
          \<or> (\<exists>n'. combine_loop cv rgb_folder mask_folder output_folder (sort (filter is_png names)) fs1 0 = (fs', n'))"
    unfolding combine_rgb_mask_def
    by (auto simp: Let_def split: sum.splits if_splits prod.splits)
  have d: "map_of fs1 output_folder = Some Dir" using mk assms(3) by (rule makedirs_dir)
  from r show ?thesis
  proof
    assume "sort (filter is_png names) = [] \<and> fs' = fs1"
    with d show ?thesis by simp
  next
    assume "\<exists>n'. combine_loop cv rgb_folder mask_folder output_folder (sort (filter is_png names)) fs1 0 = (fs', n')"
    then obtain n' where "combine_loop cv rgb_folder mask_folder output_folder (sort (filter is_png names)) fs1 0 = (fs', n')" ..
    then show ?thesis using d by (rule combine_loop_keeps_dir)
  qed
qed

theorem combine_rgb_mask_leaves_output_folder_witness:
  "combine_rgb_mask nearest
      [([''rgb''], Dir), ([''rgb'', ''notes.txt''], File Undecodable), ([''mask''], Dir)]
      [''rgb''] [''mask''] [''out'']
     = Inr (False, 0, [([''rgb''], Dir), ([''rgb'', ''notes.txt''], File Undecodable), ([''mask''], Dir),
                        ([''out''], Dir)])
   \<and> \<not> path_exists [([''rgb''], Dir), ([''rgb'', ''notes.txt''], File Undecodable), ([''mask''], Dir)] [''out'']
   \<and> map_of [([''rgb''], Dir), ([''rgb'', ''notes.txt''], File Undecodable), ([''mask''], Dir),
              ([''out''], Dir)] [''out''] = Some Dir"
proof -
  let ?fs = "[([''rgb''], Dir), ([''rgb'', ''notes.txt''], File Undecodable), ([''mask''], Dir)]"
  have run: "combine_rgb_mask nearest ?fs [''rgb''] [''mask''] [''out'']
     = Inr (False, 0, [([''rgb''], Dir), ([''rgb'', ''notes.txt''], File Undecodable), ([''mask''], Dir),
                        ([''out''], Dir)])"
    by code_simp
  have e: "path_exists ?fs [''rgb'']" "path_exists ?fs [''mask'']" "[''out''] \<noteq> []"
    "\<not> path_exists ?fs [''out'']"
    by code_simp+
  from combine_rgb_mask_leaves_output_folder [OF e(1,2,3) run] run e(4) show ?thesis by simp
qed


lemma combine_loop_mono:
  "combine_loop cv rf mf out fl fs n = (fs', n') \<Longrightarrow> n \<le> n'"
proof (induction fl arbitrary: fs n)
  case Nil
  then show ?case by simp
next
  case (Cons f fl)
  show ?case
  proof (cases "combine_one cv fs rf mf out f")
    case None
    with Cons.prems have "combine_loop cv rf mf out fl fs n = (fs', n')" by simp
    then show ?thesis by (rule Cons.IH)
  next
    case (Some fs1)
    with Cons.prems have "combine_loop cv rf mf out fl fs1 (n + 1) = (fs', n')" by simp
    then have "n + 1 \<le> n'" by (rule Cons.IH)
    then show ?thesis by simp
  qed
qed

lemma combine_loop_none:
  "\<forall>f \<in> set fl. combine_one cv fs rf mf out f = None
   \<Longrightarrow> combine_loop cv rf mf out fl fs n = (fs, n)"
  by (induction fl) simp_all

lemma combine_loop_some:
  "\<exists>f \<in> set fl. combine_one cv fs rf mf out f \<noteq> None
   \<Longrightarrow> combine_loop cv rf mf out fl fs n = (fs', n') \<Longrightarrow> n < n'"
proof (induction fl)
  case Nil
  then show ?case by simp
next
  case (Cons f fl)
  show ?case
  proof (cases "combine_one cv fs rf mf out f")
    case None
    with Cons.prems have "\<exists>f \<in> set fl. combine_one cv fs rf mf out f \<noteq> None"
      and "combine_loop cv rf mf out fl fs n = (fs', n')" by simp_all
    then show ?thesis by (rule Cons.IH)
  next
    case (Some fs1)
    with Cons.prems have "combine_loop cv rf mf out fl fs1 (n + 1) = (fs', n')" by simp
    then have "n + 1 \<le> n'" by (rule combine_loop_mono)
    then show ?thesis by simp
  qed
qed

lemma combine_loop_count:
  assumes "combine_loop cv rf mf out fl fs 0 = (fs', n)"
  shows "(n = 0) = (\<forall>f \<in> set fl. combine_one cv fs rf mf out f = None)"
proof
  assume "n = 0"
  show "\<forall>f \<in> set fl. combine_one cv fs rf mf out f = None"
  proof (rule ccontr)
    assume "\<not> (\<forall>f \<in> set fl. combine_one cv fs rf mf out f = None)"
    then have "\<exists>f \<in> set fl. combine_one cv fs rf mf out f \<noteq> None" by simp
    then have "0 < n" using assms by (rule combine_loop_some)
    with \<open>n = 0\<close> show False by simp
  qed
next
  assume "\<forall>f \<in> set fl. combine_one cv fs rf mf out f = None"
  then have "combine_loop cv rf mf out fl fs 0 = (fs, 0)" by (rule combine_loop_none)
  with assms show "n = 0" by simp
qed

lemma combine_rgb_mask_run:
  assumes "path_exists fs rf" and "path_exists fs mf"
    and "makedirs fs out = Inr fs1" and "map_of fs1 rf = Some Dir"
    and "combine_loop cv rf mf out (sort (filter is_png (children fs1 rf))) fs1 0 = (fs', n)"
  shows "combine_rgb_mask cv fs rf mf out = Inr (0 < n, n, fs')"
proof (cases "sort (filter is_png (children fs1 rf)) = []")
  case True
  with assms(5) have "fs' = fs1" "n = 0" by simp_all
  with True assms(1-4) show ?thesis
    by (simp add: combine_rgb_mask_def listdir_def)
next
  case False
  with assms show ?thesis
    by (simp add: combine_rgb_mask_def listdir_def)
qed

lemma listdir_not_dir: "map_of fs d \<noteq> Some Dir \<Longrightarrow> \<exists>e. listdir fs d = Inl e"
  by (auto simp: listdir_def split: option.splits entry.splits)

text \<open>
  Claim C7, amended.  \<open>combine_rgb_mask\<close> reports failure exactly when the colour folder
  is missing, or the mask folder is missing, or the output folder was created, the colour
  folder was listed and no composite was produced: every eligible colour file of the
  colour folder is skipped by the loop body (its mask file is missing, or reading, merging
  or writing raised), which holds in particular when there is no eligible file.  It
  reports success exactly when both folders exist, the output folder was created, the
  colour folder was listed and the loop body produces a composite for some eligible file.
  It raises, and reports nothing, exactly when both folders exist and the output folder
  cannot be created or the colour folder cannot be listed.
\<close>

theorem combine_rgb_mask_fails_iff:
  "((\<exists>n fs'. combine_rgb_mask cv fs rgb_folder mask_folder output_folder = Inr (False, n, fs'))
      = (\<not> path_exists fs rgb_folder \<or> \<not> path_exists fs mask_folder
         \<or> (\<exists>fs1. makedirs fs output_folder = Inr fs1 \<and> map_of fs1 rgb_folder = Some Dir
                \<and> (\<forall>f \<in> set (filter is_png (children fs1 rgb_folder)).
                       combine_one cv fs1 rgb_folder mask_folder output_folder f = None))))
   \<and> ((\<exists>n fs'. combine_rgb_mask cv fs rgb_folder mask_folder output_folder = Inr (True, n, fs'))
      = (path_exists fs rgb_folder \<and> path_exists fs mask_folder
         \<and> (\<exists>fs1. makedirs fs output_folder = Inr fs1 \<and> map_of fs1 rgb_folder = Some Dir
                \<and> (\<exists>f \<in> set (filter is_png (children fs1 rgb_folder)).
                       combine_one cv fs1 rgb_folder mask_folder output_folder f \<noteq> None))))
   \<and> ((\<exists>e. combine_rgb_mask cv fs rgb_folder mask_folder output_folder = Inl e)
      = (path_exists fs rgb_folder \<and> path_exists fs mask_folder
         \<and> ((\<exists>e. makedirs fs output_folder = Inl e)
              \<or> (\<exists>fs1. makedirs fs output_folder = Inr fs1 \<and> map_of fs1 rgb_folder \<noteq> Some Dir))))"
proof (cases "path_exists fs rgb_folder \<and> path_exists fs mask_folder")
  case False
  then have run: "combine_rgb_mask cv fs rgb_folder mask_folder output_folder = Inr (False, 0, fs)"
    by (auto simp: combine_rgb_mask_def)
  show ?thesis unfolding run using False by auto
next
  case True
  show ?thesis
  proof (cases "makedirs fs output_folder")
    case (Inl e)
    with True have run: "combine_rgb_mask cv fs rgb_folder mask_folder output_folder = Inl e"
      by (simp add: combine_rgb_mask_def)
    show ?thesis unfolding run Inl using True by simp
  next
    case (Inr fs1)
    show ?thesis
    proof (cases "map_of fs1 rgb_folder = Some Dir")
      case False
      then obtain e where "listdir fs1 rgb_folder = Inl e" using listdir_not_dir by blast
      with True Inr have run: "combine_rgb_mask cv fs rgb_folder mask_folder output_folder = Inl e"
        by (simp add: combine_rgb_mask_def)
      show ?thesis unfolding run Inr using True False by simp
    next
      case dir: True
      let ?fl = "sort (filter is_png (children fs1 rgb_folder))"
      obtain fs' n where
        loop: "combine_loop cv rgb_folder mask_folder output_folder ?fl fs1 0 = (fs', n)"
        by (cases "combine_loop cv rgb_folder mask_folder output_folder ?fl fs1 0")
      have run: "combine_rgb_mask cv fs rgb_folder mask_folder output_folder = Inr (0 < n, n, fs')"
        using True Inr dir loop by (intro combine_rgb_mask_run) simp_all
      have "(n = 0) = (\<forall>f \<in> set ?fl.
               combine_one cv fs1 rgb_folder mask_folder output_folder f = None)"
        using loop by (rule combine_loop_count)
      then have n: "(n = 0) = (\<forall>f \<in> set (filter is_png (children fs1 rgb_folder)).
               combine_one cv fs1 rgb_folder mask_folder output_folder f = None)"
        by (simp only: set_sort)
      have n': "(0 < n) = (\<exists>f \<in> set (filter is_png (children fs1 rgb_folder)).
               combine_one cv fs1 rgb_folder mask_folder output_folder f \<noteq> None)"
        using n by auto
      have a: "(\<exists>m fs''. Inr (0 < n, n, fs') = (Inr (False, m, fs'') :: exn + bool \<times> nat \<times> fs)) = (n = 0)"
        by auto
      have b: "(\<exists>m fs''. Inr (0 < n, n, fs') = (Inr (True, m, fs'') :: exn + bool \<times> nat \<times> fs)) = (0 < n)"
        by auto
      show ?thesis unfolding run Inr a b n n' using True dir by auto
    qed
  qed
qed


theorem combine_rgb_mask_fails_iff_witness:
  "path_exists [([''rgb''], Dir), ([''rgb'', ''000000.png''], File (RgbPng [[(1, 2, 3)]])),
                ([''mask''], Dir), ([''mask'', ''000000_000000.png''], File (GrayPng [[255]]))] [''rgb'']
   \<and> path_exists [([''rgb''], Dir), ([''rgb'', ''000000.png''], File (RgbPng [[(1, 2, 3)]])),
                ([''mask''], Dir), ([''mask'', ''000000_000000.png''], File (GrayPng [[255]]))] [''mask'']
   \<and> (\<exists>fs1. makedirs [([''rgb''], Dir), ([''rgb'', ''000000.png''], File (RgbPng [[(1, 2, 3)]])),
                ([''mask''], Dir), ([''mask'', ''000000_000000.png''], File (GrayPng [[255]]))] [''out'']
                  = Inr fs1
             \<and> map_of fs1 [''rgb''] = Some Dir
             \<and> (\<exists>f \<in> set (filter is_png (children fs1 [''rgb''])).
                    combine_one nearest fs1 [''rgb''] [''mask''] [''out''] f \<noteq> None))"
proof -
  have run: "combine_rgb_mask nearest
       [([''rgb''], Dir), ([''rgb'', ''000000.png''], File (RgbPng [[(1, 2, 3)]])),
        ([''mask''], Dir), ([''mask'', ''000000_000000.png''], File (GrayPng [[255]]))]
       [''rgb''] [''mask''] [''out'']
     = Inr (True, 1,
       [([''rgb''], Dir), ([''rgb'', ''000000.png''], File (RgbPng [[(1, 2, 3)]])),
        ([''mask''], Dir), ([''mask'', ''000000_000000.png''], File (GrayPng [[255]])),
        ([''out''], Dir), ([''out'', ''000000.png''], File (RgbaPng [[(1, 2, 3, 255)]]))])"
    by code_simp
  then have "\<exists>n fs'. combine_rgb_mask nearest
       [([''rgb''], Dir), ([''rgb'', ''000000.png''], File (RgbPng [[(1, 2, 3)]])),
        ([''mask''], Dir), ([''mask'', ''000000_000000.png''], File (GrayPng [[255]]))]
       [''rgb''] [''mask''] [''out''] = Inr (True, n, fs')"
    by (intro exI)
  with combine_rgb_mask_fails_iff [of nearest
       "[([''rgb''], Dir), ([''rgb'', ''000000.png''], File (RgbPng [[(1, 2, 3)]])),
        ([''mask''], Dir), ([''mask'', ''000000_000000.png''], File (GrayPng [[255]]))]"
       "[''rgb'']" "[''mask'']" "[''out'']"]
  show ?thesis by blast
qed

text \<open>
  Both folders exist and the colour folder holds an eligible file, but no mask file
  belongs to it: the call reports failure.
\<close>

theorem combine_rgb_mask_no_mask_file:
  "combine_rgb_mask nearest
       [([''rgb''], Dir), ([''rgb'', ''000000.png''], File (RgbPng [[(1, 2, 3)]])), ([''mask''], Dir)]
       [''rgb''] [''mask''] [''out'']
     = Inr (False, 0,
       [([''rgb''], Dir), ([''rgb'', ''000000.png''], File (RgbPng [[(1, 2, 3)]])), ([''mask''], Dir),
        ([''out''], Dir)])
   \<and> path_exists [([''rgb''], Dir), ([''rgb'', ''000000.png''], File (RgbPng [[(1, 2, 3)]])), ([''mask''], Dir)]
         [''rgb'']
   \<and> path_exists [([''rgb''], Dir), ([''rgb'', ''000000.png''], File (RgbPng [[(1, 2, 3)]])), ([''mask''], Dir)]
         [''mask'']
   \<and> filter is_png (children [([''rgb''], Dir), ([''rgb'', ''000000.png''], File (RgbPng [[(1, 2, 3)]])),
                                 ([''mask''], Dir)] [''rgb'']) = [''000000.png'']"
  by code_simp

lemma postprocess_loop_mono:
  "postprocess_loop d fl fs n = (fs', n') \<Longrightarrow> n \<le> n'"
proof (induction fl arbitrary: fs n)
  case Nil
  then show ?case by simp
next
  case (Cons f fl)
  show ?case
  proof (cases "postprocess_one fs d f")
    case None
    with Cons.prems have "postprocess_loop d fl fs n = (fs', n')" by simp
    then show ?thesis by (rule Cons.IH)
  next
    case (Some fs1)
    with Cons.prems have "postprocess_loop d fl fs1 (n + 1) = (fs', n')" by simp
    then have "n + 1 \<le> n'" by (rule Cons.IH)
    then show ?thesis by simp
  qed
qed

lemma postprocess_loop_none:
  "\<forall>f \<in> set fl. postprocess_one fs d f = None \<Longrightarrow> postprocess_loop d fl fs n = (fs, n)"
  by (induction fl) simp_all

lemma postprocess_loop_some:
  "\<exists>f \<in> set fl. postprocess_one fs d f \<noteq> None
   \<Longrightarrow> postprocess_loop d fl fs n = (fs', n') \<Longrightarrow> n < n'"
proof (induction fl)
  case Nil
  then show ?case by simp
next
  case (Cons f fl)
  show ?case
  proof (cases "postprocess_one fs d f")
    case None
    with Cons.prems have "\<exists>f \<in> set fl. postprocess_one fs d f \<noteq> None"
      and "postprocess_loop d fl fs n = (fs', n')" by simp_all
    then show ?thesis by (rule Cons.IH)
  next
    case (Some fs1)
    with Cons.prems have "postprocess_loop d fl fs1 (n + 1) = (fs', n')" by simp
    then have "n + 1 \<le> n'" by (rule postprocess_loop_mono)
    then show ?thesis by simp
  qed
qed

lemma postprocess_loop_count:
  assumes "postprocess_loop d fl fs 0 = (fs', n)"
  shows "(n = 0) = (\<forall>f \<in> set fl. postprocess_one fs d f = None)"
proof
  assume "n = 0"
  show "\<forall>f \<in> set fl. postprocess_one fs d f = None"
  proof (rule ccontr)
    assume "\<not> (\<forall>f \<in> set fl. postprocess_one fs d f = None)"
    then have "\<exists>f \<in> set fl. postprocess_one fs d f \<noteq> None" by simp
    then have "0 < n" using assms by (rule postprocess_loop_some)
    with \<open>n = 0\<close> show False by simp
  qed
next
  assume "\<forall>f \<in> set fl. postprocess_one fs d f = None"
  then have "postprocess_loop d fl fs 0 = (fs, 0)" by (rule postprocess_loop_none)
  with assms show "n = 0" by simp
qed

lemma postprocess_segmented_images_run:
  assumes "map_of fs d = Some Dir"
    and "postprocess_loop d (sort (filter is_png (children fs d))) fs 0 = (fs', n)"
  shows "postprocess_segmented_images fs d = Inr (0 < n, n, fs')"
proof (cases "sort (filter is_png (children fs d)) = []")
  case True
  with assms(2) have "fs' = fs" "n = 0" by simp_all
  with True assms(1) show ?thesis
    by (simp add: postprocess_segmented_images_def listdir_def path_exists_def)
next
  case False
  with assms show ?thesis
    by (simp add: postprocess_segmented_images_def listdir_def path_exists_def)
qed

text \<open>
  Claim C8, amended.  \<open>postprocess_segmented_images\<close> reports failure exactly when the
  folder does not exist, or it is a directory in which no image is processed: every
  eligible file is skipped by the loop body (it does not decode, or it does not have four
  channels), which holds in particular when there is no eligible file.  It reports success
  exactly when the folder is a directory and the loop body processes some eligible file.
  It raises, and reports nothing, exactly when the path exists and is not a directory.
\<close>

theorem postprocess_segmented_images_fails_iff:
  "((\<exists>n fs'. postprocess_segmented_images fs folder = Inr (False, n, fs'))
      = (\<not> path_exists fs folder
         \<or> (map_of fs folder = Some Dir
              \<and> (\<forall>f \<in> set (filter is_png (children fs folder)).
                     postprocess_one fs folder f = None))))
   \<and> ((\<exists>n fs'. postprocess_segmented_images fs folder = Inr (True, n, fs'))
      = (map_of fs folder = Some Dir
         \<and> (\<exists>f \<in> set (filter is_png (children fs folder)).
                postprocess_one fs folder f \<noteq> None)))
   \<and> ((\<exists>e. postprocess_segmented_images fs folder = Inl e)
      = (path_exists fs folder \<and> map_of fs folder \<noteq> Some Dir))"
proof (cases "path_exists fs folder")
  case False
  then have run: "postprocess_segmented_images fs folder = Inr (False, 0, fs)"
    by (simp add: postprocess_segmented_images_def)
  from False have "map_of fs folder \<noteq> Some Dir" by (auto simp: path_exists_def)
  then show ?thesis unfolding run using False by auto
next
  case True
  show ?thesis
  proof (cases "map_of fs folder = Some Dir")
    case False
    then obtain e where "listdir fs folder = Inl e" using listdir_not_dir by blast
    with True have run: "postprocess_segmented_images fs folder = Inl e"
      by (simp add: postprocess_segmented_images_def)
    show ?thesis unfolding run using True False by simp
  next
    case dir: True
    let ?fl = "sort (filter is_png (children fs folder))"
    obtain fs' n where loop: "postprocess_loop folder ?fl fs 0 = (fs', n)"
      by (cases "postprocess_loop folder ?fl fs 0")
    have run: "postprocess_segmented_images fs folder = Inr (0 < n, n, fs')"
      using dir loop by (rule postprocess_segmented_images_run)
    have "(n = 0) = (\<forall>f \<in> set ?fl. postprocess_one fs folder f = None)"
      using loop by (rule postprocess_loop_count)
    then have n: "(n = 0) = (\<forall>f \<in> set (filter is_png (children fs folder)).
               postprocess_one fs folder f = None)"
      by (simp only: set_sort)
    have n': "(0 < n) = (\<exists>f \<in> set (filter is_png (children fs folder)).
               postprocess_one fs folder f \<noteq> None)"
      using n by auto
    have a: "(\<exists>m fs''. Inr (0 < n, n, fs') = (Inr (False, m, fs'') :: exn + bool \<times> nat \<times> fs)) = (n = 0)"
      by auto
    have b: "(\<exists>m fs''. Inr (0 < n, n, fs') = (Inr (True, m, fs'') :: exn + bool \<times> nat \<times> fs)) = (0 < n)"
      by auto
    show ?thesis unfolding run a b n n' using True dir by auto
  qed
qed

theorem postprocess_segmented_images_fails_iff_witness:
  "map_of [([''seg''], Dir), ([''seg'', ''000000.png''], File (RgbaPng [[(1, 2, 3, 9)]])),
           ([''seg'', ''000001.png''], File (RgbPng [[(1, 2, 3)]]))] [''seg''] = Some Dir
   \<and> (\<exists>f \<in> set (filter is_png (children
                [([''seg''], Dir), ([''seg'', ''000000.png''], File (RgbaPng [[(1, 2, 3, 9)]])),
                 ([''seg'', ''000001.png''], File (RgbPng [[(1, 2, 3)]]))] [''seg''])).
          postprocess_one
                [([''seg''], Dir), ([''seg'', ''000000.png''], File (RgbaPng [[(1, 2, 3, 9)]])),
                 ([''seg'', ''000001.png''], File (RgbPng [[(1, 2, 3)]]))] [''seg''] f \<noteq> None)"
proof -
  have run: "postprocess_segmented_images
       [([''seg''], Dir), ([''seg'', ''000000.png''], File (RgbaPng [[(1, 2, 3, 9)]])),
        ([''seg'', ''000001.png''], File (RgbPng [[(1, 2, 3)]]))] [''seg'']
     = Inr (True, 1,
       [([''seg''], Dir), ([''seg'', ''000000.png''], File (RgbaPng [[(0, 0, 0, 9)]])),
        ([''seg'', ''000001.png''], File (RgbPng [[(1, 2, 3)]]))])"
    by code_simp
  then have "\<exists>n fs'. postprocess_segmented_images
       [([''seg''], Dir), ([''seg'', ''000000.png''], File (RgbaPng [[(1, 2, 3, 9)]])),
        ([''seg'', ''000001.png''], File (RgbPng [[(1, 2, 3)]]))] [''seg''] = Inr (True, n, fs')"
    by (intro exI)
  with postprocess_segmented_images_fails_iff [of
       "[([''seg''], Dir), ([''seg'', ''000000.png''], File (RgbaPng [[(1, 2, 3, 9)]])),
        ([''seg'', ''000001.png''], File (RgbPng [[(1, 2, 3)]]))]" "[''seg'']"]
  show ?thesis by blast
qed

text \<open>
  The folder exists and holds an eligible file, but the image has three channels: the
  call reports failure.
\<close>

theorem postprocess_segmented_images_three_channels:
  "postprocess_segmented_images
       [([''seg''], Dir), ([''seg'', ''000000.png''], File (RgbPng [[(1, 2, 3)]]))] [''seg'']
     = Inr (False, 0, [([''seg''], Dir), ([''seg'', ''000000.png''], File (RgbPng [[(1, 2, 3)]]))])
   \<and> path_exists [([''seg''], Dir), ([''seg'', ''000000.png''], File (RgbPng [[(1, 2, 3)]]))] [''seg'']
   \<and> filter is_png (children [([''seg''], Dir), ([''seg'', ''000000.png''], File (RgbPng [[(1, 2, 3)]]))]
         [''seg'']) = [''000000.png'']"
  by code_simp

subsection \<open>The composites in the file system that \<open>combine_rgb_mask\<close> leaves\<close>


lemma path_join_eq: "path_join a x = path_join b y \<longleftrightarrow> a = b \<and> x = y"
  by (simp add: path_join_def)

lemma path_join_neq: "path_join a x \<noteq> a"
  by (simp add: path_join_def)

lemma write_file_Inr:
  assumes "write_file fs p c = Inr fs'"
  shows "fs' = AList.update p (File c) fs" and "map_of fs p \<noteq> Some Dir"
    and "map_of fs (butlast p) = Some Dir" and "p \<noteq> []"
  using assms by (auto simp: write_file_def split: if_splits)

lemma combine_one_reads:
  assumes "combine_one cv fs rf mf out f = Some fsf"
  shows "\<exists>bgr msk. imread fs (path_join rf f) = Some bgr
           \<and> imread_GRAYSCALE cv fs (path_join mf (splitext_root f @ ''_000000.png'')) = Some msk"
  using assms unfolding combine_one_def Let_def
  by (auto split: if_splits option.splits)

lemma imread_cong: "map_of fs2 p = map_of fs p \<Longrightarrow> imread fs2 p = imread fs p"
  by (simp add: imread_def)

lemma imread_gray_cong:
  "map_of fs2 p = map_of fs p \<Longrightarrow> imread_GRAYSCALE cv fs2 p = imread_GRAYSCALE cv fs p"
  by (simp add: imread_GRAYSCALE_def)

lemma combine_one_after_write:
  assumes run: "combine_one cv fs rf mf out f = Some fsf"
    and x: "x \<noteq> splitext_root f @ ''.png''" and rf: "rf \<noteq> out" and mf: "mf \<noteq> out"
  shows "\<exists>fsf2. combine_one cv (AList.update (path_join out x) (File c) fs) rf mf out f = Some fsf2
           \<and> map_of fsf2 (path_join out (splitext_root f @ ''.png''))
               = map_of fsf (path_join out (splitext_root f @ ''.png''))"
proof -
  let ?fs2 = "AList.update (path_join out x) (File c) fs"
  let ?op = "path_join out (splitext_root f @ ''.png'')"
  have frame: "map_of ?fs2 p = map_of fs p" if "p \<noteq> path_join out x" for p
    using that by (simp add: update_conv')
  from combine_one_reads [OF run] obtain bgr msk where
    bgr: "imread fs (path_join rf f) = Some bgr"
    and msk: "imread_GRAYSCALE cv fs (path_join mf (splitext_root f @ ''_000000.png'')) = Some msk"
    by blast
  have "map_of ?fs2 (path_join rf f) = map_of fs (path_join rf f)"
    using rf by (intro frame) (simp add: path_join_eq)
  then have "imread ?fs2 (path_join rf f) = imread fs (path_join rf f)"
    by (rule imread_cong)
  then have bgr2: "imread ?fs2 (path_join rf f) = Some bgr" by (simp only: bgr)
  have "map_of ?fs2 (path_join mf (splitext_root f @ ''_000000.png''))
          = map_of fs (path_join mf (splitext_root f @ ''_000000.png''))"
    using mf by (intro frame) (simp add: path_join_eq)
  then have "imread_GRAYSCALE cv ?fs2 (path_join mf (splitext_root f @ ''_000000.png''))
          = imread_GRAYSCALE cv fs (path_join mf (splitext_root f @ ''_000000.png''))"
    by (rule imread_gray_cong)
  then have msk2: "imread_GRAYSCALE cv ?fs2 (path_join mf (splitext_root f @ ''_000000.png'')) = Some msk"
    by (simp only: msk)
  let ?m = "if shape2 (cvtColor_BGR2RGB bgr) \<noteq> shape2 msk
            then resize cv msk (width (cvtColor_BGR2RGB bgr)) (length (cvtColor_BGR2RGB bgr))
            else Some msk"
  have u: "combine_one cv fs rf mf out f =
     (case ?m of None \<Rightarrow> None
      | Some a \<Rightarrow>
         (case write_file fs ?op
                 (fromarray_RGBA (set_alpha (set_rgb (zeros4 (length (cvtColor_BGR2RGB bgr))
                     (width (cvtColor_BGR2RGB bgr))) (cvtColor_BGR2RGB bgr)) a)) of
            Inl e \<Rightarrow> None | Inr fs' \<Rightarrow> Some fs'))"
    using bgr msk by (rule combine_one_unfold)
  have u2: "combine_one cv ?fs2 rf mf out f =
     (case ?m of None \<Rightarrow> None
      | Some a \<Rightarrow>
         (case write_file ?fs2 ?op
                 (fromarray_RGBA (set_alpha (set_rgb (zeros4 (length (cvtColor_BGR2RGB bgr))
                     (width (cvtColor_BGR2RGB bgr))) (cvtColor_BGR2RGB bgr)) a)) of
            Inl e \<Rightarrow> None | Inr fs' \<Rightarrow> Some fs'))"
    using bgr2 msk2 by (rule combine_one_unfold)
  from run u obtain a where a: "?m = Some a" by (cases ?m) simp_all
  let ?c = "fromarray_RGBA (set_alpha (set_rgb (zeros4 (length (cvtColor_BGR2RGB bgr))
                     (width (cvtColor_BGR2RGB bgr))) (cvtColor_BGR2RGB bgr)) a)"
  from run u a have "(case write_file fs ?op ?c of Inl e \<Rightarrow> None | Inr fs' \<Rightarrow> Some fs') = Some fsf"
    by simp
  then have w: "write_file fs ?op ?c = Inr fsf"
    by (cases "write_file fs ?op ?c") simp_all
  have fsf: "map_of fsf ?op = Some (File ?c)"
    using write_file_Inr(1) [OF w] by (simp add: update_conv')
  have nd: "map_of fs ?op \<noteq> Some Dir" using w by (rule write_file_Inr(2))
  have d: "map_of fs out = Some Dir" using write_file_Inr(3) [OF w] by (simp add: path_join_def)
  have nd2: "map_of ?fs2 ?op \<noteq> Some Dir" using nd x by (simp add: frame path_join_eq)
  have d2: "map_of ?fs2 out = Some Dir"
    using d frame [of out] path_join_neq [of out x] by simp
  have w2: "write_file ?fs2 ?op ?c = Inr (AList.update ?op (File ?c) ?fs2)"
    using nd2 d2 by (rule write_file_ok) simp
  have "combine_one cv ?fs2 rf mf out f = Some (AList.update ?op (File ?c) ?fs2)"
    unfolding u2 a by (simp add: w2)
  moreover have "map_of (AList.update ?op (File ?c) ?fs2) ?op = map_of fsf ?op"
    by (simp add: fsf update_conv')
  ultimately show ?thesis by blast
qed

lemma combine_loop_frame:
  "combine_loop cv rf mf out fl fs n = (fs', n')
   \<Longrightarrow> \<forall>g \<in> set fl. p \<noteq> path_join out (splitext_root g @ ''.png'')
   \<Longrightarrow> map_of fs' p = map_of fs p"
proof (induction fl arbitrary: fs n)
  case Nil
  then show ?case by simp
next
  case (Cons g fl)
  show ?case
  proof (cases "combine_one cv fs rf mf out g")
    case None
    with Cons.prems have "combine_loop cv rf mf out fl fs n = (fs', n')" by simp
    then show ?thesis using Cons.prems(2) by (intro Cons.IH) simp_all
  next
    case (Some fs2)
    with Cons.prems have l: "combine_loop cv rf mf out fl fs2 (n + 1) = (fs', n')" by simp
    from combine_one_writes [OF Some] obtain c where
      "fs2 = AList.update (path_join out (splitext_root g @ ''.png'')) (File c) fs" ..
    then have "map_of fs2 p = map_of fs p" using Cons.prems(2) by (simp add: update_conv')
    moreover have "map_of fs' p = map_of fs2 p"
      using l Cons.prems(2) by (intro Cons.IH) simp_all
    ultimately show ?thesis by simp
  qed
qed

lemma combine_loop_keeps_composite:
  assumes "f \<in> set fl" and "distinct fl"
    and "\<forall>g \<in> set fl. g \<noteq> f \<longrightarrow> splitext_root g \<noteq> splitext_root f"
    and "rf \<noteq> out" and "mf \<noteq> out"
    and "combine_one cv fs rf mf out f = Some fsf"
    and "combine_loop cv rf mf out fl fs n = (fs', n')"
  shows "n < n' \<and> map_of fs' (path_join out (splitext_root f @ ''.png''))
                   = map_of fsf (path_join out (splitext_root f @ ''.png''))"
  using assms
proof (induction fl arbitrary: fs n fsf)
  case Nil
  then show ?case by simp
next
  case (Cons g fl)
  let ?op = "path_join out (splitext_root f @ ''.png'')"
  have d: "distinct fl" and gfl: "g \<notin> set fl" using Cons.prems(2) by simp_all
  have uniq: "\<forall>h \<in> set fl. h \<noteq> f \<longrightarrow> splitext_root h \<noteq> splitext_root f"
    using Cons.prems(3) by simp
  show ?case
  proof (cases "g = f")
    case True
    with Cons.prems(6,7) have l: "combine_loop cv rf mf out fl fsf (n + 1) = (fs', n')" by simp
    then have "n + 1 \<le> n'" by (rule combine_loop_mono)
    moreover have "\<forall>h \<in> set fl. ?op \<noteq> path_join out (splitext_root h @ ''.png'')"
      using uniq gfl True by (auto simp: path_join_eq)
    with l have "map_of fs' ?op = map_of fsf ?op" by (rule combine_loop_frame)
    ultimately show ?thesis by simp
  next
    case False
    then have fin: "f \<in> set fl" using Cons.prems(1) by simp
    have st: "splitext_root g \<noteq> splitext_root f" using Cons.prems(3) False by simp
    show ?thesis
    proof (cases "combine_one cv fs rf mf out g")
      case None
      with Cons.prems(7) have "combine_loop cv rf mf out fl fs n = (fs', n')" by simp
      with fin d uniq Cons.prems(4,5,6) show ?thesis by (intro Cons.IH)
    next
      case (Some fs2)
      with Cons.prems(7) have l: "combine_loop cv rf mf out fl fs2 (n + 1) = (fs', n')" by simp
      from combine_one_writes [OF Some] obtain c where
        fs2: "fs2 = AList.update (path_join out (splitext_root g @ ''.png'')) (File c) fs" ..
      have "splitext_root g @ ''.png'' \<noteq> splitext_root f @ ''.png''" using st by simp
      with Cons.prems(6) have "\<exists>fsf2. combine_one cv
            (AList.update (path_join out (splitext_root g @ ''.png'')) (File c) fs) rf mf out f = Some fsf2
           \<and> map_of fsf2 ?op = map_of fsf ?op"
        using Cons.prems(4,5) by (intro combine_one_after_write)
      then obtain fsf2 where b2: "combine_one cv fs2 rf mf out f = Some fsf2"
        and e: "map_of fsf2 ?op = map_of fsf ?op" unfolding fs2 by blast
      have "n + 1 < n' \<and> map_of fs' ?op = map_of fsf2 ?op"
        using fin d uniq Cons.prems(4,5) b2 l by (rule Cons.IH)
      with e show ?thesis by simp
    qed
  qed
qed

lemma children_distinct: "distinct (children fs d)"
  by (simp add: children_def)

lemma combine_rgb_mask_keeps_composite:
  assumes ex: "path_exists fs rf" "path_exists fs mf"
    and mk: "makedirs fs out = Inr fs1"
    and dir: "map_of fs1 rf = Some Dir"
    and ne: "rf \<noteq> out" "mf \<noteq> out"
    and f: "f \<in> set (filter is_png (children fs1 rf))"
    and uniq: "\<forall>g \<in> set (filter is_png (children fs1 rf)).
                 g \<noteq> f \<longrightarrow> splitext_root g \<noteq> splitext_root f"
    and body: "combine_one cv fs1 rf mf out f = Some fsf"
  shows "\<exists>n fs'. combine_rgb_mask cv fs rf mf out = Inr (True, n, fs') \<and> 0 < n
           \<and> map_of fs' (path_join out (splitext_root f @ ''.png''))
               = map_of fsf (path_join out (splitext_root f @ ''.png''))"
proof -
  let ?fl = "sort (filter is_png (children fs1 rf))"
  obtain fs' n where loop: "combine_loop cv rf mf out ?fl fs1 0 = (fs', n)"
    by (cases "combine_loop cv rf mf out ?fl fs1 0")
  have run: "combine_rgb_mask cv fs rf mf out = Inr (0 < n, n, fs')"
    using ex mk dir loop by (rule combine_rgb_mask_run)
  have f': "f \<in> set ?fl" using f by (simp only: set_sort)
  have d: "distinct ?fl" by (simp add: children_distinct)
  have uniq': "\<forall>g \<in> set ?fl. g \<noteq> f \<longrightarrow> splitext_root g \<noteq> splitext_root f"
    using uniq by (simp only: set_sort)
  have "0 < n \<and> map_of fs' (path_join out (splitext_root f @ ''.png''))
                   = map_of fsf (path_join out (splitext_root f @ ''.png''))"
    using f' d uniq' ne body loop by (rule combine_loop_keeps_composite)
  with run show ?thesis by simp
qed

text \<open>
  Claim C1.  Let both input folders exist, let the output folder be created and be another
  folder than the two input folders, and let \<open>f\<close> be an eligible file of the colour
  folder whose stem no other eligible file shares.  If the colour image and the mask of
  \<open>f\<close> decode to arrays of the same height and width and the output path of \<open>f\<close> is
  not a directory, then \<open>combine_rgb_mask\<close> reports success, and the file system it
  leaves holds at the output path of \<open>f\<close> a four-channel image of that height and width
  whose first three channels are, at every pixel, the three channels of the colour image
  as loaded (after the conversion to R, G, B) and whose fourth channel is the mask's value
  at that pixel.
\<close>

theorem combine_rgb_mask_channels:
  assumes ex: "path_exists fs rgb_folder" "path_exists fs mask_folder"
    and mk: "makedirs fs output_folder = Inr fs1" and out: "output_folder \<noteq> []"
    and dir: "map_of fs1 rgb_folder = Some Dir"
    and ne: "rgb_folder \<noteq> output_folder" "mask_folder \<noteq> output_folder"
    and f: "f \<in> set (filter is_png (children fs1 rgb_folder))"
    and uniq: "\<forall>g \<in> set (filter is_png (children fs1 rgb_folder)).
                 g \<noteq> f \<longrightarrow> splitext_root g \<noteq> splitext_root f"
    and bgr: "imread fs1 (path_join rgb_folder f) = Some bgr"
    and msk: "imread_GRAYSCALE cv fs1 (path_join mask_folder (splitext_root f @ ''_000000.png''))
                = Some msk"
    and r: "rect bgr" and m: "rect msk"
    and sh: "shape2 bgr = shape2 msk"
    and nodir: "map_of fs1 (path_join output_folder (splitext_root f @ ''.png'')) \<noteq> Some Dir"
  shows "\<exists>n fs' px. combine_rgb_mask cv fs rgb_folder mask_folder output_folder = Inr (True, n, fs')
           \<and> 0 < n
           \<and> map_of fs' (path_join output_folder (splitext_root f @ ''.png''))
                 = Some (File (RgbaPng px))
           \<and> shape2 px = shape2 bgr \<and> rect px
           \<and> (\<forall>y < length bgr. \<forall>x < width bgr.
                 px ! y ! x = (cvtColor_BGR2RGB bgr ! y ! x ! 0, cvtColor_BGR2RGB bgr ! y ! x ! 1,
                               cvtColor_BGR2RGB bgr ! y ! x ! 2, msk ! y ! x))"
proof -
  let ?op = "path_join output_folder (splitext_root f @ ''.png'')"
  have d: "map_of fs1 output_folder = Some Dir" using mk out by (rule makedirs_dir)
  from combine_one_same_shape [OF bgr msk r m sh d nodir] obtain fsf px where
    body: "combine_one cv fs1 rgb_folder mask_folder output_folder f = Some fsf"
    and stored: "map_of fsf ?op = Some (File (RgbaPng px))"
    and px: "shape2 px = shape2 bgr" "rect px"
      "\<forall>y < length bgr. \<forall>x < width bgr.
                 px ! y ! x = (cvtColor_BGR2RGB bgr ! y ! x ! 0, cvtColor_BGR2RGB bgr ! y ! x ! 1,
                               cvtColor_BGR2RGB bgr ! y ! x ! 2, msk ! y ! x)"
    by blast
  from combine_rgb_mask_keeps_composite [OF ex mk dir ne f uniq body] obtain n fs' where
    run: "combine_rgb_mask cv fs rgb_folder mask_folder output_folder = Inr (True, n, fs')"
    and n: "0 < n" and same: "map_of fs' ?op = map_of fsf ?op"
    by blast
  have "map_of fs' ?op = Some (File (RgbaPng px))" using same stored by simp
  with run n px show ?thesis by blast
qed

text \<open>
  Claim C3.  Under the same conditions on the folders and on \<open>f\<close>, if the colour image
  and the mask of \<open>f\<close> decode to arrays that differ in height or width, then
  \<open>combine_rgb_mask\<close> still reports success and the file system it leaves holds a
  composite at the output path of \<open>f\<close>: the frame is not dropped.  The composite has the
  colour image's height and width, its colour channels are those of the colour image, and
  its alpha channel is the mask resized to the colour image's size.
\<close>

theorem combine_rgb_mask_resizes_mask:
  assumes ex: "path_exists fs rgb_folder" "path_exists fs mask_folder"
    and mk: "makedirs fs output_folder = Inr fs1" and out: "output_folder \<noteq> []"
    and dir: "map_of fs1 rgb_folder = Some Dir"
    and ne: "rgb_folder \<noteq> output_folder" "mask_folder \<noteq> output_folder"
    and f: "f \<in> set (filter is_png (children fs1 rgb_folder))"
    and uniq: "\<forall>g \<in> set (filter is_png (children fs1 rgb_folder)).
                 g \<noteq> f \<longrightarrow> splitext_root g \<noteq> splitext_root f"
    and bgr: "imread fs1 (path_join rgb_folder f) = Some bgr"
    and msk: "imread_GRAYSCALE cv fs1 (path_join mask_folder (splitext_root f @ ''_000000.png''))
                = Some msk"
    and r: "rect bgr" and m: "rect msk"
    and sh: "shape2 bgr \<noteq> shape2 msk"
    and nodir: "map_of fs1 (path_join output_folder (splitext_root f @ ''.png'')) \<noteq> Some Dir"
  shows "\<exists>n fs' px. combine_rgb_mask cv fs rgb_folder mask_folder output_folder = Inr (True, n, fs')
           \<and> 0 < n
           \<and> map_of fs' (path_join output_folder (splitext_root f @ ''.png''))
                 = Some (File (RgbaPng px))
           \<and> shape2 px = shape2 bgr \<and> rect px
           \<and> (\<forall>y < length bgr. \<forall>x < width bgr.
                 px ! y ! x = (cvtColor_BGR2RGB bgr ! y ! x ! 0, cvtColor_BGR2RGB bgr ! y ! x ! 1,
                               cvtColor_BGR2RGB bgr ! y ! x ! 2, interpolate cv msk (length bgr) (width bgr) y x))"
proof -
  let ?op = "path_join output_folder (splitext_root f @ ''.png'')"
  have d: "map_of fs1 output_folder = Some Dir" using mk out by (rule makedirs_dir)
  from combine_one_other_shape [OF bgr msk r m sh d nodir] obtain fsf px where
    body: "combine_one cv fs1 rgb_folder mask_folder output_folder f = Some fsf"
    and stored: "map_of fsf ?op = Some (File (RgbaPng px))"
    and px: "shape2 px = shape2 bgr" "rect px"
      "\<forall>y < length bgr. \<forall>x < width bgr.
                 px ! y ! x = (cvtColor_BGR2RGB bgr ! y ! x ! 0, cvtColor_BGR2RGB bgr ! y ! x ! 1,
                               cvtColor_BGR2RGB bgr ! y ! x ! 2, interpolate cv msk (length bgr) (width bgr) y x)"
    by blast
  from combine_rgb_mask_keeps_composite [OF ex mk dir ne f uniq body] obtain n fs' where
    run: "combine_rgb_mask cv fs rgb_folder mask_folder output_folder = Inr (True, n, fs')"
    and n: "0 < n" and same: "map_of fs' ?op = map_of fsf ?op"
    by blast
  have "map_of fs' ?op = Some (File (RgbaPng px))" using same stored by simp
  with run n px show ?thesis by blast
qed


theorem combine_rgb_mask_channels_witness:
  "\<exists>n fs' px. combine_rgb_mask nearest
        [([''rgb''], Dir), ([''rgb'', ''000000.png''], File (RgbPng [[(1, 2, 3), (4, 5, 6)]])),
         ([''rgb'', ''000001.png''], File (RgbPng [[(9, 9, 9)]])),
         ([''mask''], Dir), ([''mask'', ''000000_000000.png''], File (GrayPng [[255, 0]]))]
        [''rgb''] [''mask''] [''out''] = Inr (True, n, fs')
     \<and> 0 < n
     \<and> map_of fs' (path_join [''out''] (splitext_root ''000000.png'' @ ''.png''))
           = Some (File (RgbaPng px))
     \<and> shape2 px = (1, 2) \<and> px ! 0 ! 0 = (1, 2, 3, 255) \<and> px ! 0 ! 1 = (4, 5, 6, 0)"
proof -
  let ?fs = "[([''rgb''], Dir), ([''rgb'', ''000000.png''], File (RgbPng [[(1, 2, 3), (4, 5, 6)]])),
         ([''rgb'', ''000001.png''], File (RgbPng [[(9, 9, 9)]])),
         ([''mask''], Dir), ([''mask'', ''000000_000000.png''], File (GrayPng [[255, 0]]))]"
  let ?fs1 = "[([''rgb''], Dir), ([''rgb'', ''000000.png''], File (RgbPng [[(1, 2, 3), (4, 5, 6)]])),
         ([''rgb'', ''000001.png''], File (RgbPng [[(9, 9, 9)]])),
         ([''mask''], Dir), ([''mask'', ''000000_000000.png''], File (GrayPng [[255, 0]])),
         ([''out''], Dir)]"
  have h: "path_exists ?fs [''rgb'']" "path_exists ?fs [''mask'']"
    "makedirs ?fs [''out''] = Inr ?fs1" "[''out''] \<noteq> ([] :: path)"
    "map_of ?fs1 [''rgb''] = Some Dir"
    "[''rgb''] \<noteq> [''out'']" "[''mask''] \<noteq> [''out'']"
    "''000000.png'' \<in> set (filter is_png (children ?fs1 [''rgb'']))"
    "\<forall>g \<in> set (filter is_png (children ?fs1 [''rgb''])).
        g \<noteq> ''000000.png'' \<longrightarrow> splitext_root g \<noteq> splitext_root ''000000.png''"
    "imread ?fs1 (path_join [''rgb''] ''000000.png'') = Some [[[3, 2, 1], [6, 5, 4]]]"
    "imread_GRAYSCALE nearest ?fs1 (path_join [''mask''] (splitext_root ''000000.png'' @ ''_000000.png''))
       = Some [[255, 0]]"
    "rect [[[3, 2, 1], [6, 5, 4 :: u8]]]" "rect ([[255, 0]] :: u8 list list)"
    "shape2 [[[3, 2, 1], [6, 5, 4 :: u8]]] = shape2 ([[255, 0]] :: u8 list list)"
    "map_of ?fs1 (path_join [''out''] (splitext_root ''000000.png'' @ ''.png'')) \<noteq> Some Dir"
    by code_simp+
  from combine_rgb_mask_channels [OF h] obtain n fs' px where
    s: "combine_rgb_mask nearest ?fs [''rgb''] [''mask''] [''out''] = Inr (True, n, fs')" "0 < n"
       "map_of fs' (path_join [''out''] (splitext_root ''000000.png'' @ ''.png''))
          = Some (File (RgbaPng px))"
       "shape2 px = shape2 [[[3, 2, 1], [6, 5, 4 :: u8]]]"
    and v: "\<forall>y < length [[[3, 2, 1], [6, 5, 4 :: u8]]]. \<forall>x < width [[[3, 2, 1], [6, 5, 4 :: u8]]].
              px ! y ! x = (cvtColor_BGR2RGB [[[3, 2, 1], [6, 5, 4]]] ! y ! x ! 0,
                            cvtColor_BGR2RGB [[[3, 2, 1], [6, 5, 4]]] ! y ! x ! 1,
                            cvtColor_BGR2RGB [[[3, 2, 1], [6, 5, 4]]] ! y ! x ! 2,
                            [[255, 0]] ! y ! x)"
    by blast
  from v have "px ! 0 ! 0 = (1, 2, 3, 255)" "px ! 0 ! 1 = (4, 5, 6, 0)"
    by (simp_all add: width_def cvtColor_BGR2RGB_def nearest_def)
  moreover have "shape2 px = (1, 2)" using s(4) by (simp add: shape2_def width_def)
  ultimately show ?thesis using s(1,2,3) by blast
qed

theorem combine_rgb_mask_resizes_mask_witness:
  "\<exists>n fs' px. combine_rgb_mask nearest
        [([''rgb''], Dir), ([''rgb'', ''000000.png''], File (RgbPng [[(1, 2, 3), (4, 5, 6)]])),
         ([''rgb'', ''000001.png''], File (RgbPng [[(9, 9, 9)]])),
         ([''mask''], Dir), ([''mask'', ''000000_000000.png''], File (GrayPng [[7], [8]]))]
        [''rgb''] [''mask''] [''out''] = Inr (True, n, fs')
     \<and> 0 < n
     \<and> map_of fs' (path_join [''out''] (splitext_root ''000000.png'' @ ''.png''))
           = Some (File (RgbaPng px))
     \<and> shape2 px = (1, 2) \<and> px ! 0 ! 0 = (1, 2, 3, 7) \<and> px ! 0 ! 1 = (4, 5, 6, 7)"
proof -
  let ?fs = "[([''rgb''], Dir), ([''rgb'', ''000000.png''], File (RgbPng [[(1, 2, 3), (4, 5, 6)]])),
         ([''rgb'', ''000001.png''], File (RgbPng [[(9, 9, 9)]])),
         ([''mask''], Dir), ([''mask'', ''000000_000000.png''], File (GrayPng [[7], [8]]))]"
  let ?fs1 = "[([''rgb''], Dir), ([''rgb'', ''000000.png''], File (RgbPng [[(1, 2, 3), (4, 5, 6)]])),
         ([''rgb'', ''000001.png''], File (RgbPng [[(9, 9, 9)]])),
         ([''mask''], Dir), ([''mask'', ''000000_000000.png''], File (GrayPng [[7], [8]])),
         ([''out''], Dir)]"
  have h: "path_exists ?fs [''rgb'']" "path_exists ?fs [''mask'']"
    "makedirs ?fs [''out''] = Inr ?fs1" "[''out''] \<noteq> ([] :: path)"
    "map_of ?fs1 [''rgb''] = Some Dir"
    "[''rgb''] \<noteq> [''out'']" "[''mask''] \<noteq> [''out'']"
    "''000000.png'' \<in> set (filter is_png (children ?fs1 [''rgb'']))"
    "\<forall>g \<in> set (filter is_png (children ?fs1 [''rgb''])).
        g \<noteq> ''000000.png'' \<longrightarrow> splitext_root g \<noteq> splitext_root ''000000.png''"
    "imread ?fs1 (path_join [''rgb''] ''000000.png'') = Some [[[3, 2, 1], [6, 5, 4]]]"
    "imread_GRAYSCALE nearest ?fs1 (path_join [''mask''] (splitext_root ''000000.png'' @ ''_000000.png''))
       = Some [[7], [8]]"
    "rect [[[3, 2, 1], [6, 5, 4 :: u8]]]" "rect ([[7], [8]] :: u8 list list)"
    "shape2 [[[3, 2, 1], [6, 5, 4 :: u8]]] \<noteq> shape2 ([[7], [8]] :: u8 list list)"
    "map_of ?fs1 (path_join [''out''] (splitext_root ''000000.png'' @ ''.png'')) \<noteq> Some Dir"
    by code_simp+
  from combine_rgb_mask_resizes_mask [OF h] obtain n fs' px where
    s: "combine_rgb_mask nearest ?fs [''rgb''] [''mask''] [''out''] = Inr (True, n, fs')" "0 < n"
       "map_of fs' (path_join [''out''] (splitext_root ''000000.png'' @ ''.png''))
          = Some (File (RgbaPng px))"
       "shape2 px = shape2 [[[3, 2, 1], [6, 5, 4 :: u8]]]"
    and v: "\<forall>y < length [[[3, 2, 1], [6, 5, 4 :: u8]]]. \<forall>x < width [[[3, 2, 1], [6, 5, 4 :: u8]]].
              px ! y ! x = (cvtColor_BGR2RGB [[[3, 2, 1], [6, 5, 4]]] ! y ! x ! 0,
                            cvtColor_BGR2RGB [[[3, 2, 1], [6, 5, 4]]] ! y ! x ! 1,
                            cvtColor_BGR2RGB [[[3, 2, 1], [6, 5, 4]]] ! y ! x ! 2,
                            interpolate nearest [[7], [8]] (length [[[3, 2, 1], [6, 5, 4 :: u8]]])
                              (width [[[3, 2, 1], [6, 5, 4 :: u8]]]) y x)"
    by blast
  from v have "px ! 0 ! 0 = (1, 2, 3, 7)" "px ! 0 ! 1 = (4, 5, 6, 7)"
    by (simp_all add: width_def cvtColor_BGR2RGB_def nearest_def)
  moreover have "shape2 px = (1, 2)" using s(4) by (simp add: shape2_def width_def)
  ultimately show ?thesis using s(1,2,3) by blast
qed

subsection \<open>The three copy functions copy the files of the range\<close>


lemma of_char_digit: "d < 10 \<Longrightarrow> of_char (digit_char d) = (48 + d :: nat)"
  by (simp add: digit_char_def)

lemma digits_value_snoc: "digits_value (s @ [c]) = 10 * digits_value s + (of_char c - 48)"
  by (simp add: digits_value_def)

lemma digits_value_digits10: "digits_value (digits10 n) = n"
proof (induction n rule: digits10.induct)
  case (1 n)
  show ?case
  proof (cases "n < 10")
    case True
    then have "digits10 n = [digit_char n]" by (simp add: digits10.simps [of n])
    then show ?thesis using True by (simp add: digits_value_def of_char_digit)
  next
    case False
    then have "digits10 n = digits10 (n div 10) @ [digit_char (n mod 10)]"
      by (simp add: digits10.simps [of n])
    then show ?thesis using False 1 by (simp add: digits_value_snoc of_char_digit)
  qed
qed

lemma digits_value_zeros: "digits_value (replicate k CHR ''0'' @ s) = digits_value s"
  by (induction k) (simp_all add: digits_value_def)

lemma digits_value_zfill: "digits_value (zfill w (digits10 n)) = n"
  by (simp add: zfill_def digits_value_zeros digits_value_digits10)

lemma digit_char_not_minus:
  assumes "d < 10"
  shows "digit_char d \<noteq> CHR ''-''"
proof
  assume e: "digit_char d = CHR ''-''"
  have "(of_char (digit_char d) :: nat) = 48 + d" using assms by (rule of_char_digit)
  then have "(of_char CHR ''-'' :: nat) = 48 + d" unfolding e .
  then show False by simp
qed

lemma digits10_no_minus: "CHR ''-'' \<notin> set (digits10 n)"
proof (induction n rule: digits10.induct)
  case (1 n)
  show ?case
  proof (cases "n < 10")
    case True
    then have "digits10 n = [digit_char n]" by (simp add: digits10.simps [of n])
    then show ?thesis using True digit_char_not_minus [of n] by auto
  next
    case False
    then have "digits10 n = digits10 (n div 10) @ [digit_char (n mod 10)]"
      by (simp add: digits10.simps [of n])
    then show ?thesis using False 1 digit_char_not_minus [of "n mod 10"] by auto
  qed
qed

lemma zfill_no_minus: "CHR ''-'' \<notin> set (zfill w (digits10 n))"
  using digits10_no_minus [of n] by (auto simp: zfill_def)

lemma format_06d_inj: "format_06d i = format_06d j \<Longrightarrow> i = j"
proof -
  assume eq: "format_06d i = format_06d j"
  consider (nn) "i < 0" "j < 0" | (pp) "\<not> i < 0" "\<not> j < 0" | (np) "i < 0" "\<not> j < 0"
    | (pn) "\<not> i < 0" "j < 0" by blast
  then show ?thesis
  proof cases
    case nn
    with eq have "zfill 5 (digits10 (nat (- i))) = zfill 5 (digits10 (nat (- j)))"
      by (simp add: format_06d_def)
    then have "digits_value (zfill 5 (digits10 (nat (- i)))) = digits_value (zfill 5 (digits10 (nat (- j))))"
      by simp
    then have "nat (- i) = nat (- j)" by (simp only: digits_value_zfill)
    with nn show ?thesis by simp
  next
    case pp
    with eq have "zfill 6 (digits10 (nat i)) = zfill 6 (digits10 (nat j))"
      by (simp add: format_06d_def)
    then have "digits_value (zfill 6 (digits10 (nat i))) = digits_value (zfill 6 (digits10 (nat j)))"
      by simp
    then have "nat i = nat j" by (simp only: digits_value_zfill)
    with pp show ?thesis by simp
  next
    case np
    with eq have "CHR ''-'' # zfill 5 (digits10 (nat (- i))) = zfill 6 (digits10 (nat j))"
      by (simp add: format_06d_def)
    then have "CHR ''-'' \<in> set (zfill 6 (digits10 (nat j)))"
      by (metis list.set_intros(1))
    then show ?thesis using zfill_no_minus by simp
  next
    case pn
    with eq have "CHR ''-'' # zfill 5 (digits10 (nat (- j))) = zfill 6 (digits10 (nat i))"
      by (simp add: format_06d_def)
    then have "CHR ''-'' \<in> set (zfill 6 (digits10 (nat i)))"
      by (metis list.set_intros(1))
    then show ?thesis using zfill_no_minus by simp
  qed
qed

lemma png_name_inj: "inj_on png_name A"
  by (rule inj_onI) (simp add: png_name_def format_06d_inj)

lemma mask_name_inj: "inj_on mask_name A"
  by (rule inj_onI) (simp add: mask_name_def format_06d_inj)

lemma copy2_file:
  assumes "map_of fs sp = Some (File c)" and "map_of fs (path_join d x) \<noteq> Some Dir"
    and "path_join d x \<noteq> sp" and "map_of fs d = Some Dir"
  shows "copy2 fs sp (path_join d x) = Inr (AList.update (path_join d x) (File c) fs)"
proof -
  have "write_file fs (path_join d x) c = Inr (AList.update (path_join d x) (File c) fs)"
    using assms(2,4) by (rule write_file_ok) simp
  then show ?thesis using assms(1,2,3) by (simp add: copy2_def)
qed


lemma copy_loop_spec:
  assumes "distinct idxs" and "inj_on dn (set idxs)" and "src \<noteq> dst"
    and "map_of fs dst = Some Dir"
    and "\<forall>i \<in> set idxs. map_of fs (path_join src (sn i)) \<noteq> Some Dir"
    and "\<forall>i \<in> set idxs. map_of fs (path_join dst (dn i)) \<noteq> Some Dir"
  shows "\<exists>fs'. copy_loop sn dn src dst idxs fs k
              = Inr (fs', k + length (filter (\<lambda>i. path_exists fs (path_join src (sn i))) idxs))
          \<and> (\<forall>i \<in> set idxs. path_exists fs (path_join src (sn i)) \<longrightarrow>
                 map_of fs' (path_join dst (dn i)) = map_of fs (path_join src (sn i)))
          \<and> (\<forall>p. (\<forall>i \<in> set idxs. path_exists fs (path_join src (sn i)) \<longrightarrow>
                       p \<noteq> path_join dst (dn i)) \<longrightarrow> map_of fs' p = map_of fs p)"
  using assms
proof (induction idxs arbitrary: fs k)
  case Nil
  then show ?case by simp
next
  case (Cons i idxs)
  let ?sp = "path_join src (sn i)"
  let ?dp = "path_join dst (dn i)"
  have d: "distinct idxs" and inj: "inj_on dn (set idxs)"
    using Cons.prems(1,2) by (simp_all add: inj_on_def)
  have ne: "\<forall>j \<in> set idxs. dn j \<noteq> dn i"
    using Cons.prems(1,2) by (auto simp: inj_on_def)
  show ?case
  proof (cases "path_exists fs ?sp")
    case False
    then have step: "copy_loop sn dn src dst (i # idxs) fs k = copy_loop sn dn src dst idxs fs k"
      by (simp add: Let_def)
    have "\<exists>fs'. copy_loop sn dn src dst idxs fs k
              = Inr (fs', k + length (filter (\<lambda>i. path_exists fs (path_join src (sn i))) idxs))
          \<and> (\<forall>i \<in> set idxs. path_exists fs (path_join src (sn i)) \<longrightarrow>
                 map_of fs' (path_join dst (dn i)) = map_of fs (path_join src (sn i)))
          \<and> (\<forall>p. (\<forall>i \<in> set idxs. path_exists fs (path_join src (sn i)) \<longrightarrow>
                       p \<noteq> path_join dst (dn i)) \<longrightarrow> map_of fs' p = map_of fs p)"
      using d inj Cons.prems(3,4) Cons.prems(5,6) by (intro Cons.IH) simp_all
    then obtain fs' where
      A: "copy_loop sn dn src dst idxs fs k
              = Inr (fs', k + length (filter (\<lambda>i. path_exists fs (path_join src (sn i))) idxs))"
      and B: "\<forall>i \<in> set idxs. path_exists fs (path_join src (sn i)) \<longrightarrow>
                 map_of fs' (path_join dst (dn i)) = map_of fs (path_join src (sn i))"
      and C: "\<forall>p. (\<forall>i \<in> set idxs. path_exists fs (path_join src (sn i)) \<longrightarrow>
                       p \<noteq> path_join dst (dn i)) \<longrightarrow> map_of fs' p = map_of fs p"
      by blast
    have "copy_loop sn dn src dst (i # idxs) fs k
              = Inr (fs', k + length (filter (\<lambda>i. path_exists fs (path_join src (sn i))) (i # idxs)))"
      unfolding step using A False by simp
    moreover have "\<forall>j \<in> set (i # idxs). path_exists fs (path_join src (sn j)) \<longrightarrow>
                 map_of fs' (path_join dst (dn j)) = map_of fs (path_join src (sn j))"
      using B False by simp
    moreover have "\<forall>p. (\<forall>j \<in> set (i # idxs). path_exists fs (path_join src (sn j)) \<longrightarrow>
                       p \<noteq> path_join dst (dn j)) \<longrightarrow> map_of fs' p = map_of fs p"
      using C False by simp
    ultimately show ?thesis by blast
  next
    case True
    have "map_of fs ?sp \<noteq> Some Dir" using Cons.prems(5) by simp
    with True obtain c where c: "map_of fs ?sp = Some (File c)"
      by (cases "map_of fs ?sp") (auto simp: path_exists_def intro: entry.exhaust)
    let ?fs2 = "AList.update ?dp (File c) fs"
    have dpn: "map_of fs ?dp \<noteq> Some Dir" using Cons.prems(6) by simp
    have neq: "?dp \<noteq> ?sp" using Cons.prems(3) by (simp add: path_join_eq)
    have cp: "copy2 fs ?sp ?dp = Inr ?fs2"
      using c dpn neq Cons.prems(4) by (rule copy2_file)
    have step: "copy_loop sn dn src dst (i # idxs) fs k = copy_loop sn dn src dst idxs ?fs2 (k + 1)"
      using True cp by (simp add: Let_def)
    have frame: "map_of ?fs2 p = map_of fs p" if "p \<noteq> ?dp" for p
      using that by (simp add: update_conv')
    have at: "map_of ?fs2 ?dp = Some (File c)" by (simp add: update_conv')
    have srcs: "map_of ?fs2 (path_join src (sn j)) = map_of fs (path_join src (sn j))" for j
      using Cons.prems(3) by (intro frame) (simp add: path_join_eq)
    have ex: "path_exists ?fs2 (path_join src (sn j)) = path_exists fs (path_join src (sn j))" for j
      by (simp only: path_exists_def srcs)
    have dsts: "map_of ?fs2 (path_join dst (dn j)) = map_of fs (path_join dst (dn j))"
      if "j \<in> set idxs" for j
      using that ne by (intro frame) (simp add: path_join_eq)
    have p4: "map_of ?fs2 dst = Some Dir"
      using Cons.prems(4) frame [of dst] path_join_neq [of dst "dn i"] by simp
    have p5: "\<forall>j \<in> set idxs. map_of ?fs2 (path_join src (sn j)) \<noteq> Some Dir"
      using Cons.prems(5) by (simp add: srcs)
    have p6: "\<forall>j \<in> set idxs. map_of ?fs2 (path_join dst (dn j)) \<noteq> Some Dir"
      using Cons.prems(6) by (simp add: dsts)
    have "\<exists>fs'. copy_loop sn dn src dst idxs ?fs2 (k + 1)
              = Inr (fs', (k + 1) + length (filter (\<lambda>i. path_exists ?fs2 (path_join src (sn i))) idxs))
          \<and> (\<forall>i \<in> set idxs. path_exists ?fs2 (path_join src (sn i)) \<longrightarrow>
                 map_of fs' (path_join dst (dn i)) = map_of ?fs2 (path_join src (sn i)))
          \<and> (\<forall>p. (\<forall>i \<in> set idxs. path_exists ?fs2 (path_join src (sn i)) \<longrightarrow>
                       p \<noteq> path_join dst (dn i)) \<longrightarrow> map_of fs' p = map_of ?fs2 p)"
      using d inj Cons.prems(3) p4 p5 p6 by (rule Cons.IH)
    then obtain fs' where
      A: "copy_loop sn dn src dst idxs ?fs2 (k + 1)
              = Inr (fs', (k + 1) + length (filter (\<lambda>i. path_exists fs (path_join src (sn i))) idxs))"
      and B: "\<forall>j \<in> set idxs. path_exists fs (path_join src (sn j)) \<longrightarrow>
                 map_of fs' (path_join dst (dn j)) = map_of fs (path_join src (sn j))"
      and C: "\<forall>p. (\<forall>j \<in> set idxs. path_exists fs (path_join src (sn j)) \<longrightarrow>
                       p \<noteq> path_join dst (dn j)) \<longrightarrow> map_of fs' p = map_of ?fs2 p"
      unfolding ex srcs by blast
    have "\<forall>j \<in> set idxs. path_exists fs (path_join src (sn j)) \<longrightarrow> ?dp \<noteq> path_join dst (dn j)"
      using ne by (auto simp: path_join_eq)
    with C have "map_of fs' ?dp = map_of ?fs2 ?dp" by blast
    then have here: "map_of fs' ?dp = map_of fs ?sp" by (simp only: at c)
    have "copy_loop sn dn src dst (i # idxs) fs k
              = Inr (fs', k + length (filter (\<lambda>i. path_exists fs (path_join src (sn i))) (i # idxs)))"
      unfolding step using A True by simp
    moreover have "\<forall>j \<in> set (i # idxs). path_exists fs (path_join src (sn j)) \<longrightarrow>
                 map_of fs' (path_join dst (dn j)) = map_of fs (path_join src (sn j))"
      using B here by simp
    moreover have "\<forall>p. (\<forall>j \<in> set (i # idxs). path_exists fs (path_join src (sn j)) \<longrightarrow>
                       p \<noteq> path_join dst (dn j)) \<longrightarrow> map_of fs' p = map_of fs p"
    proof (intro allI impI)
      fix p
      assume h: "\<forall>j \<in> set (i # idxs). path_exists fs (path_join src (sn j)) \<longrightarrow>
                       p \<noteq> path_join dst (dn j)"
      then have "p \<noteq> ?dp" using True by simp
      then have "map_of ?fs2 p = map_of fs p" by (rule frame)
      moreover from h C have "map_of fs' p = map_of ?fs2 p" by simp
      ultimately show "map_of fs' p = map_of fs p" by simp
    qed
    ultimately show ?thesis by blast
  qed
qed

text \<open>
  Claim C6.  Let \<open>f\<close> be one of the three copy functions, with the source and destination
  names it builds from an index, and let \<open>fs1\<close> be the file system once \<open>f\<close> has created
  the destination folder.  If the destination folder is another folder than the source
  folder and no source or destination path of an index of the range is a directory, then
  the call returns, and in the file system it leaves: for every index \<open>i\<close> of
  \<open>[start_idx, end_idx)\<close> whose source file exists, the destination path of \<open>i\<close> holds the
  content of the source file of \<open>i\<close>, whether or not the source files of other indices
  exist; every path that is not the destination path of such an index is as it was, so
  that nothing is copied for an index outside the range or for an index whose source
  file is missing; and the count returned is the number of indices of the range whose
  source file exists.
\<close>

theorem copy_functions_copy_the_range:
  assumes names: "(f, source_name, dest_name) \<in>
           {(copy_images_to_directory, png_name, png_name),
            (copy_and_rename_mask_images, mask_name, png_name),
            (copy_mask_images_to_directory, mask_name, mask_name)}"
    and mk: "makedirs fs dest_folder = Inr fs1"
    and dst: "dest_folder \<noteq> []"
    and diff: "source_folder \<noteq> dest_folder"
    and srcs: "\<forall>i \<in> {start_idx..<end_idx}.
                 map_of fs1 (path_join source_folder (source_name i)) \<noteq> Some Dir"
    and dsts: "\<forall>i \<in> {start_idx..<end_idx}.
                 map_of fs1 (path_join dest_folder (dest_name i)) \<noteq> Some Dir"
  shows "\<exists>fs'. f fs source_folder dest_folder (start_idx, end_idx)
              = Inr (fs', card {i \<in> {start_idx..<end_idx}.
                                  path_exists fs1 (path_join source_folder (source_name i))})
          \<and> (\<forall>i \<in> {start_idx..<end_idx}.
                 path_exists fs1 (path_join source_folder (source_name i)) \<longrightarrow>
                 map_of fs' (path_join dest_folder (dest_name i))
                   = map_of fs1 (path_join source_folder (source_name i)))
          \<and> (\<forall>p. (\<forall>i \<in> {start_idx..<end_idx}.
                       path_exists fs1 (path_join source_folder (source_name i)) \<longrightarrow>
                       p \<noteq> path_join dest_folder (dest_name i)) \<longrightarrow>
                   map_of fs' p = map_of fs1 p)"
proof -
  let ?idxs = "[start_idx..end_idx - 1]"
  have f: "f fs source_folder dest_folder (start_idx, end_idx)
             = copy_loop source_name dest_name source_folder dest_folder ?idxs fs1 0"
    using names mk
    by (auto simp: copy_images_to_directory_def copy_and_rename_mask_images_def
        copy_mask_images_to_directory_def copy_range_def)
  have inj: "inj_on dest_name (set ?idxs)"
    using names by (auto intro: png_name_inj mask_name_inj)
  have s: "set ?idxs = {start_idx..<end_idx}" by auto
  have d: "distinct ?idxs" by simp
  have dir: "map_of fs1 dest_folder = Some Dir" using mk dst by (rule makedirs_dir)
  have srcs': "\<forall>i \<in> set ?idxs. map_of fs1 (path_join source_folder (source_name i)) \<noteq> Some Dir"
    using srcs unfolding s .
  have dsts': "\<forall>i \<in> set ?idxs. map_of fs1 (path_join dest_folder (dest_name i)) \<noteq> Some Dir"
    using dsts unfolding s .
  have "\<exists>fs'. copy_loop source_name dest_name source_folder dest_folder ?idxs fs1 0
              = Inr (fs', 0 + length (filter (\<lambda>i. path_exists fs1 (path_join source_folder (source_name i))) ?idxs))
          \<and> (\<forall>i \<in> set ?idxs. path_exists fs1 (path_join source_folder (source_name i)) \<longrightarrow>
                 map_of fs' (path_join dest_folder (dest_name i))
                   = map_of fs1 (path_join source_folder (source_name i)))
          \<and> (\<forall>p. (\<forall>i \<in> set ?idxs. path_exists fs1 (path_join source_folder (source_name i)) \<longrightarrow>
                       p \<noteq> path_join dest_folder (dest_name i)) \<longrightarrow> map_of fs' p = map_of fs1 p)"
    using d inj diff dir srcs' dsts' by (rule copy_loop_spec)
  then obtain fs' where
    A: "copy_loop source_name dest_name source_folder dest_folder ?idxs fs1 0
              = Inr (fs', 0 + length (filter (\<lambda>i. path_exists fs1 (path_join source_folder (source_name i))) ?idxs))"
    and B: "\<forall>i \<in> set ?idxs. path_exists fs1 (path_join source_folder (source_name i)) \<longrightarrow>
                 map_of fs' (path_join dest_folder (dest_name i))
                   = map_of fs1 (path_join source_folder (source_name i))"
    and C: "\<forall>p. (\<forall>i \<in> set ?idxs. path_exists fs1 (path_join source_folder (source_name i)) \<longrightarrow>
                       p \<noteq> path_join dest_folder (dest_name i)) \<longrightarrow> map_of fs' p = map_of fs1 p"
    by blast
  have "{i. path_exists fs1 (path_join source_folder (source_name i))} \<inter> set ?idxs
      = {i \<in> {start_idx..<end_idx}. path_exists fs1 (path_join source_folder (source_name i))}"
    unfolding s by blast
  then have n: "length (filter (\<lambda>i. path_exists fs1 (path_join source_folder (source_name i))) ?idxs)
      = card {i \<in> {start_idx..<end_idx}. path_exists fs1 (path_join source_folder (source_name i))}"
    using distinct_length_filter [OF d, of "\<lambda>i. path_exists fs1 (path_join source_folder (source_name i))"]
    by (simp only:)
  have A': "f fs source_folder dest_folder (start_idx, end_idx)
              = Inr (fs', card {i \<in> {start_idx..<end_idx}.
                                  path_exists fs1 (path_join source_folder (source_name i))})"
    unfolding f A n by (simp only: add_0)
  show ?thesis
    using A' B C unfolding s by (intro exI conjI)
qed


theorem copy_functions_copy_the_range_witness:
  "\<exists>fs'. copy_and_rename_mask_images
      [([''mask''], Dir), ([''mask'', ''000000_000000.png''], File (GrayPng [[1]])),
       ([''mask'', ''000002_000000.png''], File (GrayPng [[3]])),
       ([''mask'', ''000005_000000.png''], File (GrayPng [[6]]))]
      [''mask''] [''seg''] (0, 3) = Inr (fs', 2)
     \<and> map_of fs' (path_join [''seg''] (png_name 0)) = Some (File (GrayPng [[1]]))
     \<and> map_of fs' (path_join [''seg''] (png_name 1)) = None
     \<and> map_of fs' (path_join [''seg''] (png_name 2)) = Some (File (GrayPng [[3]]))
     \<and> map_of fs' (path_join [''seg''] (png_name 5)) = None"
proof -
  let ?fs = "[([''mask''], Dir), ([''mask'', ''000000_000000.png''], File (GrayPng [[1]])),
       ([''mask'', ''000002_000000.png''], File (GrayPng [[3]])),
       ([''mask'', ''000005_000000.png''], File (GrayPng [[6]]))]"
  let ?fs1 = "[([''mask''], Dir), ([''mask'', ''000000_000000.png''], File (GrayPng [[1]])),
       ([''mask'', ''000002_000000.png''], File (GrayPng [[3]])),
       ([''mask'', ''000005_000000.png''], File (GrayPng [[6]])),
       ([''seg''], Dir)]"
  have names: "(copy_and_rename_mask_images, mask_name, png_name) \<in>
           {(copy_images_to_directory, png_name, png_name),
            (copy_and_rename_mask_images, mask_name, png_name),
            (copy_mask_images_to_directory, mask_name, mask_name)}"
    by simp
  have mk: "makedirs ?fs [''seg''] = Inr ?fs1" by code_simp
  have ne: "[''seg''] \<noteq> ([] :: path)" "[''mask''] \<noteq> [''seg'']" by simp_all
  have srcs: "\<forall>i \<in> {0..<3}. map_of ?fs1 (path_join [''mask''] (mask_name i)) \<noteq> Some Dir"
    by (simp add: path_join_def)
  have dsts: "\<forall>i \<in> {0..<3}. map_of ?fs1 (path_join [''seg''] (png_name i)) \<noteq> Some Dir"
    by (simp add: path_join_def)
  have e: "path_exists ?fs1 (path_join [''mask''] (mask_name 0))"
    "\<not> path_exists ?fs1 (path_join [''mask''] (mask_name 1))"
    "path_exists ?fs1 (path_join [''mask''] (mask_name 2))"
    by code_simp+
  have v: "map_of ?fs1 (path_join [''mask''] (mask_name 0)) = Some (File (GrayPng [[1]]))"
    "map_of ?fs1 (path_join [''mask''] (mask_name 2)) = Some (File (GrayPng [[3]]))"
    "map_of ?fs1 (path_join [''seg''] (png_name 1)) = None"
    "map_of ?fs1 (path_join [''seg''] (png_name 5)) = None"
    by code_simp+
  have d: "path_join [''seg''] (png_name 1) \<noteq> path_join [''seg''] (png_name 0)"
    "path_join [''seg''] (png_name 1) \<noteq> path_join [''seg''] (png_name 2)"
    "path_join [''seg''] (png_name 5) \<noteq> path_join [''seg''] (png_name 0)"
    "path_join [''seg''] (png_name 5) \<noteq> path_join [''seg''] (png_name 2)"
    by code_simp+
  have r: "{0..<3::int} = {0, 1, 2}" by auto
  have n: "card {i \<in> {0..<3}. path_exists ?fs1 (path_join [''mask''] (mask_name i))} = 2"
  proof -
    have "{i \<in> {0..<3}. path_exists ?fs1 (path_join [''mask''] (mask_name i))} = {0, 2}"
      unfolding r using e by auto
    then show ?thesis by simp
  qed
  from copy_functions_copy_the_range [OF names mk ne srcs dsts] obtain fs' where
    A: "copy_and_rename_mask_images ?fs [''mask''] [''seg''] (0, 3)
          = Inr (fs', card {i \<in> {0..<3}. path_exists ?fs1 (path_join [''mask''] (mask_name i))})"
    and B: "\<forall>i \<in> {0..<3}. path_exists ?fs1 (path_join [''mask''] (mask_name i)) \<longrightarrow>
              map_of fs' (path_join [''seg''] (png_name i))
                = map_of ?fs1 (path_join [''mask''] (mask_name i))"
    and C: "\<forall>p. (\<forall>i \<in> {0..<3}. path_exists ?fs1 (path_join [''mask''] (mask_name i)) \<longrightarrow>
                     p \<noteq> path_join [''seg''] (png_name i)) \<longrightarrow> map_of fs' p = map_of ?fs1 p"
    by blast
  have b0: "map_of fs' (path_join [''seg''] (png_name 0)) = Some (File (GrayPng [[1]]))"
    using B e(1) v(1) unfolding r by simp
  have b2: "map_of fs' (path_join [''seg''] (png_name 2)) = Some (File (GrayPng [[3]]))"
    using B e(3) v(2) unfolding r by simp
  have "\<forall>i \<in> {0..<3}. path_exists ?fs1 (path_join [''mask''] (mask_name i)) \<longrightarrow>
          path_join [''seg''] (png_name 1) \<noteq> path_join [''seg''] (png_name i)"
    unfolding r using e d by simp
  with C have "map_of fs' (path_join [''seg''] (png_name 1))
                 = map_of ?fs1 (path_join [''seg''] (png_name 1))" by blast
  then have b1: "map_of fs' (path_join [''seg''] (png_name 1)) = None" by (simp only: v)
  have "\<forall>i \<in> {0..<3}. path_exists ?fs1 (path_join [''mask''] (mask_name i)) \<longrightarrow>
          path_join [''seg''] (png_name 5) \<noteq> path_join [''seg''] (png_name i)"
    unfolding r using e d by simp
  with C have "map_of fs' (path_join [''seg''] (png_name 5))
                 = map_of ?fs1 (path_join [''seg''] (png_name 5))" by blast
  then have b5: "map_of fs' (path_join [''seg''] (png_name 5)) = None" by (simp only: v)
  from A have "copy_and_rename_mask_images ?fs [''mask''] [''seg''] (0, 3) = Inr (fs', 2)"
    by (simp only: n)
  with b0 b1 b2 b5 show ?thesis by blast
qed

subsection \<open>The run of \<open>process_object_directory\<close>\<close>


lemma makedirs_from_spec:
  assumes "\<forall>r. r \<noteq> [] \<and> (\<exists>t. cs = r @ t) \<longrightarrow> (\<forall>c. map_of fs (d @ r) \<noteq> Some (File c))"
  shows "\<exists>fs'. makedirs_from fs d cs = Inr fs'
           \<and> (\<forall>q. map_of fs' q = map_of fs q
                  \<or> (\<exists>r. r \<noteq> [] \<and> (\<exists>t. cs = r @ t) \<and> q = d @ r
                         \<and> map_of fs q = None \<and> map_of fs' q = Some Dir))"
  using assms
proof (induction cs arbitrary: fs d)
  case Nil
  then show ?case by simp
next
  case (Cons c cs)
  have nf: "\<forall>x. map_of fs (d @ [c]) \<noteq> Some (File x)"
    using Cons.prems by (elim allE [of _ "[c]"]) simp
  show ?case
  proof (cases "map_of fs (d @ [c])")
    case None
    let ?fs2 = "AList.update (d @ [c]) Dir fs"
    have step: "makedirs_from fs d (c # cs) = makedirs_from ?fs2 (d @ [c]) cs"
      using None by simp
    have h: "\<forall>r. r \<noteq> [] \<and> (\<exists>t. cs = r @ t) \<longrightarrow> (\<forall>x. map_of ?fs2 ((d @ [c]) @ r) \<noteq> Some (File x))"
    proof (intro allI impI)
      fix r x
      assume r: "r \<noteq> [] \<and> (\<exists>t. cs = r @ t)"
      then have "c # r \<noteq> [] \<and> (\<exists>t. c # cs = (c # r) @ t)" by simp
      with Cons.prems have "map_of fs (d @ c # r) \<noteq> Some (File x)" by blast
      moreover have "(d @ [c]) @ r \<noteq> d @ [c]" using r by simp
      ultimately show "map_of ?fs2 ((d @ [c]) @ r) \<noteq> Some (File x)"
        by (simp add: update_conv')
    qed
    from Cons.IH [OF h] obtain fs' where
      A: "makedirs_from ?fs2 (d @ [c]) cs = Inr fs'"
      and B: "\<forall>q. map_of fs' q = map_of ?fs2 q
                  \<or> (\<exists>r. r \<noteq> [] \<and> (\<exists>t. cs = r @ t) \<and> q = (d @ [c]) @ r
                         \<and> map_of ?fs2 q = None \<and> map_of fs' q = Some Dir)"
      by blast
    have "map_of fs' q = map_of fs q
                  \<or> (\<exists>r. r \<noteq> [] \<and> (\<exists>t. c # cs = r @ t) \<and> q = d @ r
                         \<and> map_of fs q = None \<and> map_of fs' q = Some Dir)" for q
    proof -
      from B have "map_of fs' q = map_of ?fs2 q
                  \<or> (\<exists>r. r \<noteq> [] \<and> (\<exists>t. cs = r @ t) \<and> q = (d @ [c]) @ r
                         \<and> map_of ?fs2 q = None \<and> map_of fs' q = Some Dir)" ..
      then show ?thesis
      proof
        assume e: "map_of fs' q = map_of ?fs2 q"
        show ?thesis
        proof (cases "q = d @ [c]")
          case True
          then have "map_of fs' q = Some Dir" using e by (simp add: update_conv')
          moreover have "map_of fs q = None" using True None by simp
          moreover have "[c] \<noteq> [] \<and> (\<exists>t. c # cs = [c] @ t) \<and> q = d @ [c]" using True by simp
          ultimately show ?thesis by blast
        next
          case False
          then show ?thesis using e by (simp add: update_conv')
        qed
      next
        assume "\<exists>r. r \<noteq> [] \<and> (\<exists>t. cs = r @ t) \<and> q = (d @ [c]) @ r
                         \<and> map_of ?fs2 q = None \<and> map_of fs' q = Some Dir"
        then obtain r where r: "r \<noteq> []" "\<exists>t. cs = r @ t" "q = (d @ [c]) @ r"
          "map_of ?fs2 q = None" "map_of fs' q = Some Dir" by blast
        have "q \<noteq> d @ [c]" using r(1,3) by simp
        then have "map_of fs q = None" using r(4) by (simp add: update_conv')
        moreover have "c # r \<noteq> [] \<and> (\<exists>t. c # cs = (c # r) @ t) \<and> q = d @ (c # r)"
          using r(2,3) by simp
        ultimately show ?thesis using r(5) by blast
      qed
    qed
    with A step show ?thesis by simp
  next
    case (Some e)
    with nf have e: "map_of fs (d @ [c]) = Some Dir" by (cases e) simp_all
    then have step: "makedirs_from fs d (c # cs) = makedirs_from fs (d @ [c]) cs" by simp
    have h: "\<forall>r. r \<noteq> [] \<and> (\<exists>t. cs = r @ t) \<longrightarrow> (\<forall>x. map_of fs ((d @ [c]) @ r) \<noteq> Some (File x))"
    proof (intro allI impI)
      fix r x
      assume r: "r \<noteq> [] \<and> (\<exists>t. cs = r @ t)"
      then have "c # r \<noteq> [] \<and> (\<exists>t. c # cs = (c # r) @ t)" by simp
      with Cons.prems have "map_of fs (d @ c # r) \<noteq> Some (File x)" by blast
      then show "map_of fs ((d @ [c]) @ r) \<noteq> Some (File x)" by simp
    qed
    from Cons.IH [OF h] obtain fs' where
      A: "makedirs_from fs (d @ [c]) cs = Inr fs'"
      and B: "\<forall>q. map_of fs' q = map_of fs q
                  \<or> (\<exists>r. r \<noteq> [] \<and> (\<exists>t. cs = r @ t) \<and> q = (d @ [c]) @ r
                         \<and> map_of fs q = None \<and> map_of fs' q = Some Dir)"
      by blast
    have "map_of fs' q = map_of fs q
                  \<or> (\<exists>r. r \<noteq> [] \<and> (\<exists>t. c # cs = r @ t) \<and> q = d @ r
                         \<and> map_of fs q = None \<and> map_of fs' q = Some Dir)" for q
    proof -
      from B have "map_of fs' q = map_of fs q
                  \<or> (\<exists>r. r \<noteq> [] \<and> (\<exists>t. cs = r @ t) \<and> q = (d @ [c]) @ r
                         \<and> map_of fs q = None \<and> map_of fs' q = Some Dir)" ..
      then show ?thesis
      proof
        assume "map_of fs' q = map_of fs q"
        then show ?thesis ..
      next
        assume "\<exists>r. r \<noteq> [] \<and> (\<exists>t. cs = r @ t) \<and> q = (d @ [c]) @ r
                         \<and> map_of fs q = None \<and> map_of fs' q = Some Dir"
        then obtain r where r: "r \<noteq> []" "\<exists>t. cs = r @ t" "q = (d @ [c]) @ r"
          "map_of fs q = None" "map_of fs' q = Some Dir" by blast
        have "c # r \<noteq> [] \<and> (\<exists>t. c # cs = (c # r) @ t) \<and> q = d @ (c # r)"
          using r(2,3) by simp
        then show ?thesis using r(4,5) by blast
      qed
    qed
    with A step show ?thesis by simp
  qed
qed

lemma makedirs_spec:
  assumes "\<forall>r. r \<noteq> [] \<and> (\<exists>t. p = r @ t) \<longrightarrow> (\<forall>c. map_of fs r \<noteq> Some (File c))"
  shows "\<exists>fs'. makedirs fs p = Inr fs'
           \<and> (\<forall>q. map_of fs' q = map_of fs q
                  \<or> (q \<noteq> [] \<and> (\<exists>t. p = q @ t) \<and> map_of fs q = None \<and> map_of fs' q = Some Dir))"
  using makedirs_from_spec [of p fs "[]"] assms unfolding makedirs_def by simp


lemma grown_refl: "grown D fs fs"
  by (simp add: grown_def)

lemma grown_mono:
  assumes "grown D fs fs'" and "D \<subseteq> E"
  shows "grown E fs fs'"
  unfolding grown_def
proof
  fix q
  from assms(1) have "map_of fs' q = map_of fs q
        \<or> (\<exists>d \<in> D. q \<noteq> [] \<and> (\<exists>t. d = q @ t) \<and> map_of fs q = None \<and> map_of fs' q = Some Dir)
        \<or> (\<exists>d \<in> D. \<exists>x c. q = path_join d x \<and> map_of fs' q = Some (File c))"
    unfolding grown_def ..
  then show "map_of fs' q = map_of fs q
        \<or> (\<exists>d \<in> E. q \<noteq> [] \<and> (\<exists>t. d = q @ t) \<and> map_of fs q = None \<and> map_of fs' q = Some Dir)
        \<or> (\<exists>d \<in> E. \<exists>x c. q = path_join d x \<and> map_of fs' q = Some (File c))"
  proof (elim disjE)
    assume "map_of fs' q = map_of fs q"
    then show ?thesis ..
  next
    assume "\<exists>d \<in> D. q \<noteq> [] \<and> (\<exists>t. d = q @ t) \<and> map_of fs q = None \<and> map_of fs' q = Some Dir"
    then obtain d where "d \<in> D" "q \<noteq> [] \<and> (\<exists>t. d = q @ t) \<and> map_of fs q = None \<and> map_of fs' q = Some Dir"
      by blast
    with assms(2) have "\<exists>d \<in> E. q \<noteq> [] \<and> (\<exists>t. d = q @ t) \<and> map_of fs q = None \<and> map_of fs' q = Some Dir"
      by blast
    then show ?thesis by simp
  next
    assume "\<exists>d \<in> D. \<exists>x c. q = path_join d x \<and> map_of fs' q = Some (File c)"
    then obtain d where "d \<in> D" "\<exists>x c. q = path_join d x \<and> map_of fs' q = Some (File c)"
      by blast
    with assms(2) have "\<exists>d \<in> E. \<exists>x c. q = path_join d x \<and> map_of fs' q = Some (File c)"
      by blast
    then show ?thesis by simp
  qed
qed

lemma grown_trans:
  assumes "grown D a b" and "grown D b c"
  shows "grown D a c"
  unfolding grown_def
proof
  fix q
  from assms(1) have ab: "map_of b q = map_of a q
        \<or> (\<exists>d \<in> D. q \<noteq> [] \<and> (\<exists>t. d = q @ t) \<and> map_of a q = None \<and> map_of b q = Some Dir)
        \<or> (\<exists>d \<in> D. \<exists>x c. q = path_join d x \<and> map_of b q = Some (File c))"
    unfolding grown_def ..
  from assms(2) have bc: "map_of c q = map_of b q
        \<or> (\<exists>d \<in> D. q \<noteq> [] \<and> (\<exists>t. d = q @ t) \<and> map_of b q = None \<and> map_of c q = Some Dir)
        \<or> (\<exists>d \<in> D. \<exists>x c'. q = path_join d x \<and> map_of c q = Some (File c'))"
    unfolding grown_def ..
  from bc show "map_of c q = map_of a q
        \<or> (\<exists>d \<in> D. q \<noteq> [] \<and> (\<exists>t. d = q @ t) \<and> map_of a q = None \<and> map_of c q = Some Dir)
        \<or> (\<exists>d \<in> D. \<exists>x c'. q = path_join d x \<and> map_of c q = Some (File c'))"
  proof (elim disjE)
    assume e: "map_of c q = map_of b q"
    from ab show ?thesis unfolding e by simp
  next
    assume h: "\<exists>d \<in> D. q \<noteq> [] \<and> (\<exists>t. d = q @ t) \<and> map_of b q = None \<and> map_of c q = Some Dir"
    then have "map_of b q = None" by blast
    with ab have "map_of a q = None" by auto
    with h show ?thesis by blast
  next
    assume "\<exists>d \<in> D. \<exists>x c'. q = path_join d x \<and> map_of c q = Some (File c')"
    then show ?thesis by blast
  qed
qed

lemma exists_file:
  "path_exists fs p \<Longrightarrow> map_of fs p \<noteq> Some Dir \<Longrightarrow> \<exists>c. map_of fs p = Some (File c)"
  by (cases "map_of fs p") (auto simp: path_exists_def intro: entry.exhaust)

lemma copy_range_step:
  assumes mkh: "\<forall>r. r \<noteq> [] \<and> (\<exists>t. dst = r @ t) \<longrightarrow> (\<forall>c. map_of fs r \<noteq> Some (File c))"
    and ne: "dst \<noteq> []" and diff: "src \<noteq> dst" and inj: "inj_on dn {s..<e}"
    and srcs: "\<forall>i \<in> {s..<e}. map_of fs (path_join src (sn i)) \<noteq> Some Dir"
    and dsts: "\<forall>i \<in> {s..<e}. map_of fs (path_join dst (dn i)) \<noteq> Some Dir"
    and away: "\<forall>i \<in> {s..<e}. \<forall>t. dst \<noteq> path_join src (sn i) @ t"
  shows "\<exists>fs' n. copy_range sn dn fs src dst (s, e) = Inr (fs', n)
           \<and> grown {dst} fs fs' \<and> map_of fs' dst = Some Dir"
proof -
  from makedirs_spec [OF mkh] obtain fs1 where mk: "makedirs fs dst = Inr fs1"
    and fr: "\<forall>q. map_of fs1 q = map_of fs q
                  \<or> (q \<noteq> [] \<and> (\<exists>t. dst = q @ t) \<and> map_of fs q = None \<and> map_of fs1 q = Some Dir)"
    by blast
  let ?idxs = "[s..e - 1]"
  have st: "set ?idxs = {s..<e}" by auto
  have d: "distinct ?idxs" by simp
  have dir: "map_of fs1 dst = Some Dir" using mk ne by (rule makedirs_dir)
  have srcs1: "\<forall>i \<in> set ?idxs. map_of fs1 (path_join src (sn i)) \<noteq> Some Dir"
    unfolding st
  proof
    fix i assume i: "i \<in> {s..<e}"
    from fr have "map_of fs1 (path_join src (sn i)) = map_of fs (path_join src (sn i))
        \<or> (path_join src (sn i) \<noteq> [] \<and> (\<exists>t. dst = path_join src (sn i) @ t)
             \<and> map_of fs (path_join src (sn i)) = None
             \<and> map_of fs1 (path_join src (sn i)) = Some Dir)" ..
    with away i have "map_of fs1 (path_join src (sn i)) = map_of fs (path_join src (sn i))"
      by blast
    with srcs i show "map_of fs1 (path_join src (sn i)) \<noteq> Some Dir" by simp
  qed
  have dsts1: "\<forall>i \<in> set ?idxs. map_of fs1 (path_join dst (dn i)) \<noteq> Some Dir"
    unfolding st
  proof
    fix i assume i: "i \<in> {s..<e}"
    from fr have "map_of fs1 (path_join dst (dn i)) = map_of fs (path_join dst (dn i))
        \<or> (path_join dst (dn i) \<noteq> [] \<and> (\<exists>t. dst = path_join dst (dn i) @ t)
             \<and> map_of fs (path_join dst (dn i)) = None
             \<and> map_of fs1 (path_join dst (dn i)) = Some Dir)" ..
    moreover have "\<not> (\<exists>t. dst = path_join dst (dn i) @ t)" by (simp add: path_join_def)
    ultimately have "map_of fs1 (path_join dst (dn i)) = map_of fs (path_join dst (dn i))"
      by blast
    with dsts i show "map_of fs1 (path_join dst (dn i)) \<noteq> Some Dir" by simp
  qed
  have inj': "inj_on dn (set ?idxs)" using inj unfolding st .
  have "\<exists>fs'. copy_loop sn dn src dst ?idxs fs1 0
              = Inr (fs', 0 + length (filter (\<lambda>i. path_exists fs1 (path_join src (sn i))) ?idxs))
          \<and> (\<forall>i \<in> set ?idxs. path_exists fs1 (path_join src (sn i)) \<longrightarrow>
                 map_of fs' (path_join dst (dn i)) = map_of fs1 (path_join src (sn i)))
          \<and> (\<forall>p. (\<forall>i \<in> set ?idxs. path_exists fs1 (path_join src (sn i)) \<longrightarrow>
                       p \<noteq> path_join dst (dn i)) \<longrightarrow> map_of fs' p = map_of fs1 p)"
    using d inj' diff dir srcs1 dsts1 by (rule copy_loop_spec)
  then obtain fs' n where
    A: "copy_loop sn dn src dst ?idxs fs1 0 = Inr (fs', n)"
    and B: "\<forall>i \<in> set ?idxs. path_exists fs1 (path_join src (sn i)) \<longrightarrow>
                 map_of fs' (path_join dst (dn i)) = map_of fs1 (path_join src (sn i))"
    and C: "\<forall>p. (\<forall>i \<in> set ?idxs. path_exists fs1 (path_join src (sn i)) \<longrightarrow>
                       p \<noteq> path_join dst (dn i)) \<longrightarrow> map_of fs' p = map_of fs1 p"
    by blast
  have run: "copy_range sn dn fs src dst (s, e) = Inr (fs', n)"
    using mk A by (simp add: copy_range_def)
  have g: "grown {dst} fs fs'"
    unfolding grown_def
  proof
    fix q
    show "map_of fs' q = map_of fs q
        \<or> (\<exists>d \<in> {dst}. q \<noteq> [] \<and> (\<exists>t. d = q @ t) \<and> map_of fs q = None \<and> map_of fs' q = Some Dir)
        \<or> (\<exists>d \<in> {dst}. \<exists>x c. q = path_join d x \<and> map_of fs' q = Some (File c))"
    proof (cases "\<exists>i \<in> set ?idxs. path_exists fs1 (path_join src (sn i)) \<and> q = path_join dst (dn i)")
      case True
      then obtain i where i: "i \<in> set ?idxs" "path_exists fs1 (path_join src (sn i))"
        "q = path_join dst (dn i)" by blast
      from srcs1 i(1) have "map_of fs1 (path_join src (sn i)) \<noteq> Some Dir" by blast
      with i(2) obtain c where "map_of fs1 (path_join src (sn i)) = Some (File c)"
        using exists_file by blast
      with B i have "map_of fs' q = Some (File c)" by simp
      with i(3) show ?thesis by blast
    next
      case False
      then have "\<forall>i \<in> set ?idxs. path_exists fs1 (path_join src (sn i)) \<longrightarrow> q \<noteq> path_join dst (dn i)"
        by blast
      with C have e: "map_of fs' q = map_of fs1 q" by blast
      from fr have "map_of fs1 q = map_of fs q
                  \<or> (q \<noteq> [] \<and> (\<exists>t. dst = q @ t) \<and> map_of fs q = None \<and> map_of fs1 q = Some Dir)" ..
      then show ?thesis unfolding e by blast
    qed
  qed
  have "\<forall>i \<in> set ?idxs. path_exists fs1 (path_join src (sn i)) \<longrightarrow> dst \<noteq> path_join dst (dn i)"
    by (simp add: path_join_def)
  with C have "map_of fs' dst = map_of fs1 dst" by blast
  with dir have "map_of fs' dst = Some Dir" by simp
  with run g show ?thesis by blast
qed

lemma distribute_step:
  assumes g: "grown D fs1 fs" and d: "d \<in> D"
    and E1: "\<forall>d \<in> D. \<forall>r. r \<noteq> [] \<and> (\<exists>t. d = r @ t) \<longrightarrow> (\<forall>c. map_of fs1 r \<noteq> Some (File c))"
    and Es: "\<forall>i \<in> {0..<e}. map_of fs1 (path_join src (sn i)) \<noteq> Some Dir"
    and Ed: "\<forall>i \<in> {0..<e}. map_of fs1 (path_join d (dn i)) \<noteq> Some Dir"
    and G1: "\<forall>d \<in> D. \<forall>d' \<in> D. \<forall>x t. d \<noteq> path_join d' x @ t"
    and G2: "\<forall>d \<in> D. \<forall>x t. d \<noteq> path_join src x @ t"
    and sD: "src \<notin> D" and ne: "d \<noteq> []" and inj: "inj_on dn {0..<e}"
  shows "\<exists>fs' n. copy_range sn dn fs src d (0, e) = Inr (fs', n)
           \<and> grown D fs1 fs' \<and> map_of fs' d = Some Dir"
proof -
  have at: "map_of fs q = map_of fs1 q
        \<or> (\<exists>d \<in> D. q \<noteq> [] \<and> (\<exists>t. d = q @ t) \<and> map_of fs1 q = None \<and> map_of fs q = Some Dir)
        \<or> (\<exists>d \<in> D. \<exists>x c. q = path_join d x \<and> map_of fs q = Some (File c))" for q
    using g unfolding grown_def ..
  have mkh: "\<forall>r. r \<noteq> [] \<and> (\<exists>t. d = r @ t) \<longrightarrow> (\<forall>c. map_of fs r \<noteq> Some (File c))"
  proof (intro allI impI)
    fix r c assume r: "r \<noteq> [] \<and> (\<exists>t. d = r @ t)"
    with E1 d have a: "map_of fs1 r \<noteq> Some (File c)" by blast
    have b: "\<not> (\<exists>d' \<in> D. \<exists>x. r = path_join d' x)" using r G1 d by blast
    from at [of r] a b show "map_of fs r \<noteq> Some (File c)" by auto
  qed
  have srcs: "\<forall>i \<in> {0..<e}. map_of fs (path_join src (sn i)) \<noteq> Some Dir"
  proof
    fix i assume i: "i \<in> {0..<e}"
    with Es have a: "map_of fs1 (path_join src (sn i)) \<noteq> Some Dir" by blast
    have b: "\<not> (\<exists>d \<in> D. \<exists>t. d = path_join src (sn i) @ t)" using G2 by blast
    from at [of "path_join src (sn i)"] a b show "map_of fs (path_join src (sn i)) \<noteq> Some Dir"
      by auto
  qed
  have dsts: "\<forall>i \<in> {0..<e}. map_of fs (path_join d (dn i)) \<noteq> Some Dir"
  proof
    fix i assume i: "i \<in> {0..<e}"
    with Ed have a: "map_of fs1 (path_join d (dn i)) \<noteq> Some Dir" by blast
    have b: "\<not> (\<exists>d' \<in> D. \<exists>t. d' = path_join d (dn i) @ t)" using G1 d by blast
    from at [of "path_join d (dn i)"] a b show "map_of fs (path_join d (dn i)) \<noteq> Some Dir"
      by auto
  qed
  have away: "\<forall>i \<in> {0..<e}. \<forall>t. d \<noteq> path_join src (sn i) @ t" using G2 d by blast
  have diff: "src \<noteq> d" using sD d by blast
  from copy_range_step [OF mkh ne diff inj srcs dsts away] obtain fs' n where
    run: "copy_range sn dn fs src d (0, e) = Inr (fs', n)" and g': "grown {d} fs fs'"
    and dir: "map_of fs' d = Some Dir" by blast
  have "{d} \<subseteq> D" using d by simp
  with g' have "grown D fs fs'" by (rule grown_mono)
  with g have "grown D fs1 fs'" by (rule grown_trans)
  with run dir show ?thesis by blast
qed


lemma combine_rgb_mask_missing:
  "\<not> path_exists fs rf \<Longrightarrow> combine_rgb_mask cv fs rf mf out = Inr (False, 0, fs)"
  by (simp add: combine_rgb_mask_def)

lemma combine_rgb_mask_true_exists:
  "combine_rgb_mask cv fs rf mf out = Inr (True, n, fs1) \<Longrightarrow> path_exists fs rf"
  by (rule ccontr) (simp add: combine_rgb_mask_missing)

text \<open>
  Claim C9.  Let the paths be the ones \<open>process_object_directory\<close> builds from the object
  directory, in a file system where the colour folder does not exist unless the folder it
  lies in exists.  Then

  \<^item> the run reports failure exactly when the compositor, run on the colour and mask
    folders, reports failure;
  \<^item> when the compositor reports failure, the run returns the file system the compositor
    left: no copy and no suppression has been performed;
  \<^item> when the compositor reports success, and in the file system it leaves no component
    of the four destination folders is a regular file and no source or destination path
    of an index below 30 is a directory, then the four copy steps and the suppression
    step each return, each run on the file system the step before it left, with the
    ranges \<open>(0, 30)\<close> for the segmented masks and images and \<open>(0, 20)\<close> for the surface
    masks and images, and the run reports success with the file system the suppression
    step left.  Nothing is assumed about which source files exist.
\<close>

theorem process_object_directory_steps:
  assumes paths:
      "base = path_join (path_join obj_path ''train_pbr'') ''000000''"
      "vggt = path_join (path_join obj_path ''train_pbr'') ''vggt''"
      "rgb_folder = path_join base ''rgb''"
      "mask_folder = path_join base ''mask''"
      "rgb_mask = path_join base ''rgb_mask''"
      "segmented_images = path_join (path_join vggt ''segmented'') ''images''"
      "segmented_masks = path_join (path_join vggt ''segmented'') ''masks''"
      "surface_images = path_join (path_join vggt ''surface'') ''images''"
      "surface_masks = path_join (path_join vggt ''surface'') ''masks''"
    and wf: "path_exists fs rgb_folder \<longrightarrow> path_exists fs base"
  shows "((\<exists>fs'. process_object_directory cv fs obj_path = Inr (False, fs'))
            = (\<exists>n fs1. combine_rgb_mask cv fs rgb_folder mask_folder rgb_mask = Inr (False, n, fs1)))
       \<and> (\<forall>n fs1. combine_rgb_mask cv fs rgb_folder mask_folder rgb_mask = Inr (False, n, fs1)
             \<longrightarrow> process_object_directory cv fs obj_path = Inr (False, fs1))
       \<and> (\<forall>n fs1. combine_rgb_mask cv fs rgb_folder mask_folder rgb_mask = Inr (True, n, fs1)
             \<and> (\<forall>d \<in> {segmented_masks, surface_masks, surface_images, segmented_images}.
                   \<forall>r. r \<noteq> [] \<and> (\<exists>t. d = r @ t) \<longrightarrow> (\<forall>c. map_of fs1 r \<noteq> Some (File c)))
             \<and> (\<forall>i \<in> {0..<30}. map_of fs1 (path_join mask_folder (mask_name i)) \<noteq> Some Dir
                             \<and> map_of fs1 (path_join rgb_mask (png_name i)) \<noteq> Some Dir)
             \<and> (\<forall>d \<in> {segmented_masks, surface_masks, surface_images, segmented_images}.
                   \<forall>i \<in> {0..<30}. map_of fs1 (path_join d (png_name i)) \<noteq> Some Dir)
             \<longrightarrow> (\<exists>fs2 c1 fs3 c2 fs4 c3 fs5 c4 ok n' fs6.
                    copy_and_rename_mask_images fs1 mask_folder segmented_masks (0, 30) = Inr (fs2, c1)
                  \<and> copy_and_rename_mask_images fs2 mask_folder surface_masks (0, 20) = Inr (fs3, c2)
                  \<and> copy_images_to_directory fs3 rgb_mask surface_images (0, 20) = Inr (fs4, c3)
                  \<and> copy_images_to_directory fs4 rgb_mask segmented_images (0, 30) = Inr (fs5, c4)
                  \<and> postprocess_segmented_images fs5 segmented_images = Inr (ok, n', fs6)
                  \<and> process_object_directory cv fs obj_path = Inr (True, fs6)))"
proof (intro conjI allI impI)
  show B: "process_object_directory cv fs obj_path = Inr (False, fs1)"
    if c: "combine_rgb_mask cv fs rgb_folder mask_folder rgb_mask = Inr (False, n, fs1)" for n fs1
  proof (cases "path_exists fs base")
    case True
    with c show ?thesis
      by (simp add: process_object_directory_def Let_def paths [symmetric])
  next
    case False
    with wf have "\<not> path_exists fs rgb_folder" by blast
    then have "combine_rgb_mask cv fs rgb_folder mask_folder rgb_mask = Inr (False, 0, fs)"
      by (rule combine_rgb_mask_missing)
    with c have "fs1 = fs" by simp
    with False show ?thesis
      by (simp add: process_object_directory_def Let_def paths [symmetric])
  qed
  show "(\<exists>fs'. process_object_directory cv fs obj_path = Inr (False, fs'))
            = (\<exists>n fs1. combine_rgb_mask cv fs rgb_folder mask_folder rgb_mask = Inr (False, n, fs1))"
  proof
    assume "\<exists>n fs1. combine_rgb_mask cv fs rgb_folder mask_folder rgb_mask = Inr (False, n, fs1)"
    then show "\<exists>fs'. process_object_directory cv fs obj_path = Inr (False, fs')"
      using B by blast
  next
    assume a: "\<exists>fs'. process_object_directory cv fs obj_path = Inr (False, fs')"
    show "\<exists>n fs1. combine_rgb_mask cv fs rgb_folder mask_folder rgb_mask = Inr (False, n, fs1)"
    proof (cases "path_exists fs base")
      case False
      with wf have "\<not> path_exists fs rgb_folder" by blast
      then have "combine_rgb_mask cv fs rgb_folder mask_folder rgb_mask = Inr (False, 0, fs)"
        by (rule combine_rgb_mask_missing)
      then show ?thesis by blast
    next
      case True
      show ?thesis
      proof (cases "combine_rgb_mask cv fs rgb_folder mask_folder rgb_mask")
        case (Inl e)
        with True a show ?thesis
          by (simp add: process_object_directory_def Let_def paths [symmetric])
      next
        case (Inr res)
        obtain ok n fs1 where res: "res = (ok, n, fs1)" by (cases res)
        show ?thesis
        proof (cases ok)
          case False
          with Inr res show ?thesis by simp
        next
          case ok: True
          with True a Inr res show ?thesis
            by (simp add: process_object_directory_def Let_def paths [symmetric]
                split: sum.splits prod.splits)
        qed
      qed
    qed
  qed
next
  fix n fs1
  let ?D = "{segmented_masks, surface_masks, surface_images, segmented_images}"
  assume h: "combine_rgb_mask cv fs rgb_folder mask_folder rgb_mask = Inr (True, n, fs1)
             \<and> (\<forall>d \<in> ?D. \<forall>r. r \<noteq> [] \<and> (\<exists>t. d = r @ t) \<longrightarrow> (\<forall>c. map_of fs1 r \<noteq> Some (File c)))
             \<and> (\<forall>i \<in> {0..<30}. map_of fs1 (path_join mask_folder (mask_name i)) \<noteq> Some Dir
                             \<and> map_of fs1 (path_join rgb_mask (png_name i)) \<noteq> Some Dir)
             \<and> (\<forall>d \<in> ?D. \<forall>i \<in> {0..<30}. map_of fs1 (path_join d (png_name i)) \<noteq> Some Dir)"
  then have c: "combine_rgb_mask cv fs rgb_folder mask_folder rgb_mask = Inr (True, n, fs1)"
    and E1: "\<forall>d \<in> ?D. \<forall>r. r \<noteq> [] \<and> (\<exists>t. d = r @ t) \<longrightarrow> (\<forall>c. map_of fs1 r \<noteq> Some (File c))"
    and E2: "\<forall>i \<in> {0..<30}. map_of fs1 (path_join mask_folder (mask_name i)) \<noteq> Some Dir
                             \<and> map_of fs1 (path_join rgb_mask (png_name i)) \<noteq> Some Dir"
    and E4: "\<forall>d \<in> ?D. \<forall>i \<in> {0..<30}. map_of fs1 (path_join d (png_name i)) \<noteq> Some Dir"
    by blast+
  have base: "path_exists fs base" using c wf combine_rgb_mask_true_exists by blast
  have G1: "\<forall>d \<in> ?D. \<forall>d' \<in> ?D. \<forall>x t. d \<noteq> path_join d' x @ t"
    by (simp add: paths path_join_def)
  have Gm: "\<forall>d \<in> ?D. \<forall>x t. d \<noteq> path_join mask_folder x @ t"
    by (simp add: paths path_join_def)
  have Gr: "\<forall>d \<in> ?D. \<forall>x t. d \<noteq> path_join rgb_mask x @ t"
    by (simp add: paths path_join_def)
  have sm: "mask_folder \<notin> ?D" and sr: "rgb_mask \<notin> ?D"
    by (simp_all add: paths path_join_def)
  have ne: "segmented_masks \<noteq> []" "surface_masks \<noteq> []" "surface_images \<noteq> []"
    "segmented_images \<noteq> []"
    by (simp_all add: paths path_join_def)
  have m30: "\<forall>i \<in> {0..<30}. map_of fs1 (path_join mask_folder (mask_name i)) \<noteq> Some Dir"
    and r30: "\<forall>i \<in> {0..<30}. map_of fs1 (path_join rgb_mask (png_name i)) \<noteq> Some Dir"
    using E2 by blast+
  have m20: "\<forall>i \<in> {0..<20}. map_of fs1 (path_join mask_folder (mask_name i)) \<noteq> Some Dir"
    and r20: "\<forall>i \<in> {0..<20}. map_of fs1 (path_join rgb_mask (png_name i)) \<noteq> Some Dir"
    using E2 by auto
  have d1: "\<forall>i \<in> {0..<30}. map_of fs1 (path_join segmented_masks (png_name i)) \<noteq> Some Dir"
    and d4: "\<forall>i \<in> {0..<30}. map_of fs1 (path_join segmented_images (png_name i)) \<noteq> Some Dir"
    using E4 by blast+
  have d2: "\<forall>i \<in> {0..<20}. map_of fs1 (path_join surface_masks (png_name i)) \<noteq> Some Dir"
    and d3: "\<forall>i \<in> {0..<20}. map_of fs1 (path_join surface_images (png_name i)) \<noteq> Some Dir"
    using E4 by auto
  have in1: "segmented_masks \<in> ?D" and in2: "surface_masks \<in> ?D"
    and in3: "surface_images \<in> ?D" and in4: "segmented_images \<in> ?D" by simp_all
  from distribute_step [OF grown_refl in1 E1 m30 d1 G1 Gm sm ne(1) png_name_inj]
  obtain fs2 c1 where
    s1: "copy_range mask_name png_name fs1 mask_folder segmented_masks (0, 30) = Inr (fs2, c1)"
    and g2: "grown ?D fs1 fs2" by blast
  from distribute_step [OF g2 in2 E1 m20 d2 G1 Gm sm ne(2) png_name_inj]
  obtain fs3 c2 where
    s2: "copy_range mask_name png_name fs2 mask_folder surface_masks (0, 20) = Inr (fs3, c2)"
    and g3: "grown ?D fs1 fs3" by blast
  from distribute_step [OF g3 in3 E1 r20 d3 G1 Gr sr ne(3) png_name_inj]
  obtain fs4 c3 where
    s3: "copy_range png_name png_name fs3 rgb_mask surface_images (0, 20) = Inr (fs4, c3)"
    and g4: "grown ?D fs1 fs4" by blast
  from distribute_step [OF g4 in4 E1 r30 d4 G1 Gr sr ne(4) png_name_inj]
  obtain fs5 c4 where
    s4: "copy_range png_name png_name fs4 rgb_mask segmented_images (0, 30) = Inr (fs5, c4)"
    and dir: "map_of fs5 segmented_images = Some Dir" by blast
  obtain fs6 n' where
    loop: "postprocess_loop segmented_images (sort (filter is_png (children fs5 segmented_images))) fs5 0
             = (fs6, n')"
    by (cases "postprocess_loop segmented_images
                 (sort (filter is_png (children fs5 segmented_images))) fs5 0")
  have s5: "postprocess_segmented_images fs5 segmented_images = Inr (0 < n', n', fs6)"
    using dir loop by (rule postprocess_segmented_images_run)
  have t1: "copy_and_rename_mask_images fs1 mask_folder segmented_masks (0, 30) = Inr (fs2, c1)"
    and t2: "copy_and_rename_mask_images fs2 mask_folder surface_masks (0, 20) = Inr (fs3, c2)"
    and t3: "copy_images_to_directory fs3 rgb_mask surface_images (0, 20) = Inr (fs4, c3)"
    and t4: "copy_images_to_directory fs4 rgb_mask segmented_images (0, 30) = Inr (fs5, c4)"
    using s1 s2 s3 s4
    by (simp_all add: copy_and_rename_mask_images_def copy_images_to_directory_def)
  have "process_object_directory cv fs obj_path = Inr (True, fs6)"
    using base c t1 t2 t3 t4 s5
    by (simp add: process_object_directory_def Let_def paths [symmetric])
  with t1 t2 t3 t4 s5
  show "\<exists>fs2 c1 fs3 c2 fs4 c3 fs5 c4 ok n' fs6.
                    copy_and_rename_mask_images fs1 mask_folder segmented_masks (0, 30) = Inr (fs2, c1)
                  \<and> copy_and_rename_mask_images fs2 mask_folder surface_masks (0, 20) = Inr (fs3, c2)
                  \<and> copy_images_to_directory fs3 rgb_mask surface_images (0, 20) = Inr (fs4, c3)
                  \<and> copy_images_to_directory fs4 rgb_mask segmented_images (0, 30) = Inr (fs5, c4)
                  \<and> postprocess_segmented_images fs5 segmented_images = Inr (ok, n', fs6)
                  \<and> process_object_directory cv fs obj_path = Inr (True, fs6)"
    by blast
qed


theorem process_object_directory_steps_witness:
  "\<exists>fs6. process_object_directory nearest
      [([''obj''], Dir), ([''obj'', ''train_pbr''], Dir), ([''obj'', ''train_pbr'', ''000000''], Dir),
       ([''obj'', ''train_pbr'', ''000000'', ''rgb''], Dir),
       ([''obj'', ''train_pbr'', ''000000'', ''rgb'', ''000000.png''], File (RgbPng [[(1, 2, 3)]])),
       ([''obj'', ''train_pbr'', ''000000'', ''mask''], Dir),
       ([''obj'', ''train_pbr'', ''000000'', ''mask'', ''000000_000000.png''], File (GrayPng [[255]]))]
      [''obj''] = Inr (True, fs6)"
proof -
  let ?fs = "[([''obj''], Dir), ([''obj'', ''train_pbr''], Dir), ([''obj'', ''train_pbr'', ''000000''], Dir),
       ([''obj'', ''train_pbr'', ''000000'', ''rgb''], Dir),
       ([''obj'', ''train_pbr'', ''000000'', ''rgb'', ''000000.png''], File (RgbPng [[(1, 2, 3)]])),
       ([''obj'', ''train_pbr'', ''000000'', ''mask''], Dir),
       ([''obj'', ''train_pbr'', ''000000'', ''mask'', ''000000_000000.png''], File (GrayPng [[255]]))]"
  let ?fs1 = "[([''obj''], Dir), ([''obj'', ''train_pbr''], Dir), ([''obj'', ''train_pbr'', ''000000''], Dir),
       ([''obj'', ''train_pbr'', ''000000'', ''rgb''], Dir),
       ([''obj'', ''train_pbr'', ''000000'', ''rgb'', ''000000.png''], File (RgbPng [[(1, 2, 3)]])),
       ([''obj'', ''train_pbr'', ''000000'', ''mask''], Dir),
       ([''obj'', ''train_pbr'', ''000000'', ''mask'', ''000000_000000.png''], File (GrayPng [[255]])),
       ([''obj'', ''train_pbr'', ''000000'', ''rgb_mask''], Dir),
       ([''obj'', ''train_pbr'', ''000000'', ''rgb_mask'', ''000000.png''], File (RgbaPng [[(1, 2, 3, 255)]]))]"
  let ?base = "path_join (path_join [''obj''] ''train_pbr'') ''000000''"
  let ?vggt = "path_join (path_join [''obj''] ''train_pbr'') ''vggt''"
  let ?rgb = "path_join ?base ''rgb''"
  let ?mask = "path_join ?base ''mask''"
  let ?rgb_mask = "path_join ?base ''rgb_mask''"
  let ?D = "{path_join (path_join ?vggt ''segmented'') ''masks'',
            path_join (path_join ?vggt ''surface'') ''masks'',
            path_join (path_join ?vggt ''surface'') ''images'',
            path_join (path_join ?vggt ''segmented'') ''images''}"
  have c: "combine_rgb_mask nearest ?fs ?rgb ?mask ?rgb_mask = Inr (True, 1, ?fs1)"
    by code_simp
  have wf: "path_exists ?fs ?rgb \<longrightarrow> path_exists ?fs ?base"
    by code_simp
  have files: "r \<in> {[''obj'', ''train_pbr'', ''000000'', ''rgb'', ''000000.png''],
                    [''obj'', ''train_pbr'', ''000000'', ''mask'', ''000000_000000.png''],
                    [''obj'', ''train_pbr'', ''000000'', ''rgb_mask'', ''000000.png'']}"
    if "map_of ?fs1 r = Some (File x)" for r x
    using that by (simp split: if_splits)
  have E1: "\<forall>d \<in> ?D. \<forall>r. r \<noteq> [] \<and> (\<exists>t. d = r @ t) \<longrightarrow> (\<forall>x. map_of ?fs1 r \<noteq> Some (File x))"
  proof (intro ballI allI impI notI)
    fix d r x
    assume d: "d \<in> ?D" and r: "r \<noteq> [] \<and> (\<exists>t. d = r @ t)" and m: "map_of ?fs1 r = Some (File x)"
    from m have "r \<in> {[''obj'', ''train_pbr'', ''000000'', ''rgb'', ''000000.png''],
                    [''obj'', ''train_pbr'', ''000000'', ''mask'', ''000000_000000.png''],
                    [''obj'', ''train_pbr'', ''000000'', ''rgb_mask'', ''000000.png'']}"
      by (rule files)
    with d r show False by (auto simp: path_join_def)
  qed
  have E2: "\<forall>i \<in> {0..<30}. map_of ?fs1 (path_join ?mask (mask_name i)) \<noteq> Some Dir
                             \<and> map_of ?fs1 (path_join ?rgb_mask (png_name i)) \<noteq> Some Dir"
    by (simp add: path_join_def)
  have E4: "\<forall>d \<in> ?D. \<forall>i \<in> {0..<30}. map_of ?fs1 (path_join d (png_name i)) \<noteq> Some Dir"
    by (simp add: path_join_def)
  note T = process_object_directory_steps [where cv = nearest and fs = ?fs and obj_path = "[''obj'']",
      OF refl refl refl refl refl refl refl refl refl wf]
  have h: "combine_rgb_mask nearest ?fs ?rgb ?mask ?rgb_mask = Inr (True, 1, ?fs1)
             \<and> (\<forall>d \<in> ?D. \<forall>r. r \<noteq> [] \<and> (\<exists>t. d = r @ t) \<longrightarrow> (\<forall>c. map_of ?fs1 r \<noteq> Some (File c)))
             \<and> (\<forall>i \<in> {0..<30}. map_of ?fs1 (path_join ?mask (mask_name i)) \<noteq> Some Dir
                             \<and> map_of ?fs1 (path_join ?rgb_mask (png_name i)) \<noteq> Some Dir)
             \<and> (\<forall>d \<in> ?D. \<forall>i \<in> {0..<30}. map_of ?fs1 (path_join d (png_name i)) \<noteq> Some Dir)"
    using c E1 E2 E4 by (intro conjI)
  from T [THEN conjunct2, THEN conjunct2, THEN spec, THEN spec, THEN mp, OF h]
  obtain fs6 where "process_object_directory nearest ?fs [''obj''] = Inr (True, fs6)"
    by (elim exE conjE)
  then show ?thesis by (rule exI)
qed


end
